theory Spec2Isabelle
  imports Main
begin

section \<open>JavaScript values used by the bundler\<close>

text \<open>
  The embedding follows \<^verbatim>\<open>src/vulcan.ts\<close>. Exceptions and rejected promises are
  values of the type \<open>error\<close>; every fallible operation returns \<open>error + 'a\<close>
  with \<open>Inl\<close> for the failure.
\<close>

datatype error =
    Error string      \<comment> \<open>\<^verbatim>\<open>throw new Error(message)\<close>\<close>
  | TypeError         \<comment> \<open>a property read on \<^verbatim>\<open>null\<close> or \<^verbatim>\<open>undefined\<close>\<close>
  | RangeError        \<comment> \<open>call stack exhausted by a recursive walk over a cyclic structure\<close>
  | ReferenceError    \<comment> \<open>a \<^verbatim>\<open>const\<close> binding read before its initializer has finished\<close>
  | NoReturn          \<comment> \<open>a \<^verbatim>\<open>while\<close> loop over a cyclic parent chain never ends\<close>
  | Rejection string  \<comment> \<open>a promise of the loader or of the analyzer rejected\<close>

text \<open>Sequencing: a failure ends the computation, as an exception does.\<close>

definition bind :: "error + 'a \<Rightarrow> ('a \<Rightarrow> error + 'b) \<Rightarrow> error + 'b" where
  "bind r f = (case r of Inl e \<Rightarrow> Inl e | Inr x \<Rightarrow> f x)"


text \<open>\<^verbatim>\<open>Array.prototype.indexOf\<close>: the first position of an element, or \<open>-1\<close>.\<close>

fun indexOf :: "'a list \<Rightarrow> 'a \<Rightarrow> int" where
  "indexOf [] x = -1"
| "indexOf (y # ys) x =
     (if y = x then 0 else (let i = indexOf ys x in if i < 0 then -1 else i + 1))"

text \<open>Reading \<^verbatim>\<open>xs[i]\<close>: \<^verbatim>\<open>undefined\<close> outside the array.\<close>

definition at :: "'a list \<Rightarrow> int \<Rightarrow> 'a option" where
  "at xs i = (if 0 \<le> i \<and> i < int (length xs) then Some (xs ! nat i) else None)"

text \<open>
  \<^verbatim>\<open>xs.splice(start, deleteCount, ...items)\<close>: a negative \<open>start\<close> counts from
  the end, and both numbers are clamped to the array.
\<close>

definition arraySplice :: "int \<Rightarrow> nat \<Rightarrow> 'a list \<Rightarrow> 'a list \<Rightarrow> 'a list" where
  "arraySplice start deleteCount items xs =
     (let len = int (length xs);
          s = nat (if start < 0 then max (len + start) 0 else min start len)
      in take s xs @ items @ drop (s + deleteCount) xs)"

text \<open>Truthiness of an optional string: \<^verbatim>\<open>undefined\<close> and \<^verbatim>\<open>''\<close> are falsy.\<close>

definition truthy :: "string option \<Rightarrow> bool" where
  "truthy s = (case s of None \<Rightarrow> False | Some t \<Rightarrow> t \<noteq> [])"

fun startsWith :: "'a list \<Rightarrow> 'a list \<Rightarrow> bool" where
  "startsWith xs [] = True"
| "startsWith [] (p # ps) = False"
| "startsWith (x # xs) (p # ps) = (x = p \<and> startsWith xs ps)"

text \<open>\<^verbatim>\<open>s.indexOf(p) > -1\<close>: the text \<open>p\<close> occurs in \<open>s\<close>.\<close>

fun containsStr :: "'a list \<Rightarrow> 'a list \<Rightarrow> bool" where
  "containsStr [] p = (p = [])"
| "containsStr (x # xs) p = (startsWith (x # xs) p \<or> containsStr xs p)"

text \<open>
  Strings are lists of characters with the codes 0 to 255, read as the code units U+0000
  to U+00FF. The regular expression \<^verbatim>\<open>/\S/\<close> matches a character that is not white
  space; the white space of \<^verbatim>\<open>\s\<close> in this range is tab, line feed, vertical tab, form
  feed, carriage return (9 to 13), space (32) and the no-break space U+00A0 (160).
\<close>

definition isSpace :: "char \<Rightarrow> bool" where
  "isSpace c = (let k = (of_char c :: nat) in (9 \<le> k \<and> k \<le> 13) \<or> k = 32 \<or> k = 160)"

text \<open>
  \<^verbatim>\<open>toLowerCase\<close> in the same range: the letters A to Z, and the capital letters
  U+00C0 to U+00DE but for the multiplication sign U+00D7, move up by 32.
\<close>

definition toLowerCase :: "string \<Rightarrow> string" where
  "toLowerCase s =
     map (\<lambda>c. let k = (of_char c :: nat)
              in if (65 \<le> k \<and> k \<le> 90) \<or> (192 \<le> k \<and> k \<le> 222 \<and> k \<noteq> 215)
                 then char_of (k + 32) else c) s"

section \<open>The document store\<close>

text \<open>
  Modelled from the spec: the document tree capability of section 6 (the dom5 library over
  parse5 nodes) is not under src/. Nodes are objects with identity, a list of children and
  a back reference to the parent, and the bundler mutates them in place; the model is a
  store, a list of node records addressed by position. A reference to a node is its
  position; a reference that may be \<^verbatim>\<open>null\<close> or \<^verbatim>\<open>undefined\<close> is a \<open>nat option\<close>.
  \<open>nodeName\<close> is \<^verbatim>\<open>#document\<close>, \<^verbatim>\<open>#document-fragment\<close>, \<^verbatim>\<open>#text\<close>,
  \<^verbatim>\<open>#comment\<close> or the tag of an element; \<open>tagName\<close> is set on elements only;
  \<open>nodeValue\<close> is the \<^verbatim>\<open>value\<close> of a text node and the \<^verbatim>\<open>data\<close> of a comment.
  Text and comment nodes have no child list in parse5; the model gives them the empty one.
\<close>

record node =
  nodeName :: string
  tagName :: "string option"
  attrs :: "(string \<times> string) list"
  nodeValue :: string
  childNodes :: "nat list"
  parentNode :: "nat option"
  hydrolysisInlined :: "string option"

type_synonym dom = "node list"

definition newElement :: "string \<Rightarrow> node" where
  "newElement tag = \<lparr>nodeName = tag, tagName = Some tag, attrs = [], nodeValue = [],
     childNodes = [], parentNode = None, hydrolysisInlined = None\<rparr>"

definition newDocumentFragment :: node where
  "newDocumentFragment = \<lparr>nodeName = ''#document-fragment'', tagName = None, attrs = [],
     nodeValue = [], childNodes = [], parentNode = None, hydrolysisInlined = None\<rparr>"

definition newTextNode :: "string \<Rightarrow> node" where
  "newTextNode v = \<lparr>nodeName = ''#text'', tagName = None, attrs = [], nodeValue = v,
     childNodes = [], parentNode = None, hydrolysisInlined = None\<rparr>"

text \<open>Allocation: the new node is put at the end of the store, its reference is returned.\<close>

definition alloc :: "node \<Rightarrow> dom \<Rightarrow> nat \<times> dom" where
  "alloc nd d = (length d, d @ [nd])"

definition isElement :: "node \<Rightarrow> bool" where
  "isElement nd = (tagName nd = Some (nodeName nd))"

definition isTextNode :: "node \<Rightarrow> bool" where
  "isTextNode nd = (nodeName nd = ''#text'')"

definition isCommentNode :: "node \<Rightarrow> bool" where
  "isCommentNode nd = (nodeName nd = ''#comment'')"

definition isDocumentFragment :: "node \<Rightarrow> bool" where
  "isDocumentFragment nd = (nodeName nd = ''#document-fragment'')"

definition hasTagName :: "string \<Rightarrow> node \<Rightarrow> bool" where
  "hasTagName name nd =
     (case tagName nd of None \<Rightarrow> False
      | Some t \<Rightarrow> t \<noteq> [] \<and> toLowerCase t = toLowerCase name)"

definition getAttribute :: "node \<Rightarrow> string \<Rightarrow> string option" where
  "getAttribute nd name = map_of (attrs nd) name"

definition hasAttr :: "string \<Rightarrow> node \<Rightarrow> bool" where
  "hasAttr name nd = (getAttribute nd name \<noteq> None)"

fun setAttr :: "string \<Rightarrow> string \<Rightarrow> (string \<times> string) list \<Rightarrow> (string \<times> string) list" where
  "setAttr name v [] = [(name, v)]"
| "setAttr name v ((k, w) # as) = (if k = name then (k, v) # as else (k, w) # setAttr name v as)"

definition setAttribute :: "nat \<Rightarrow> string \<Rightarrow> string \<Rightarrow> dom \<Rightarrow> dom" where
  "setAttribute n name v d = d[n := (d ! n)\<lparr>attrs := setAttr name v (attrs (d ! n))\<rparr>]"

fun removeFirstAttr :: "string \<Rightarrow> (string \<times> string) list \<Rightarrow> (string \<times> string) list" where
  "removeFirstAttr name [] = []"
| "removeFirstAttr name ((k, w) # as) = (if k = name then as else (k, w) # removeFirstAttr name as)"

definition removeAttribute :: "nat \<Rightarrow> string \<Rightarrow> dom \<Rightarrow> dom" where
  "removeAttribute n name d = d[n := (d ! n)\<lparr>attrs := removeFirstAttr name (attrs (d ! n))\<rparr>]"

text \<open>
  \<^verbatim>\<open>dom5.remove\<close>: the node leaves the child list of its parent, at the position
  \<^verbatim>\<open>indexOf\<close> gives (so the last child goes when the node is not listed), and its
  parent reference is cleared.
\<close>

definition remove :: "nat \<Rightarrow> dom \<Rightarrow> dom" where
  "remove n d =
     (let d1 = (case parentNode (d ! n) of
                  None \<Rightarrow> d
                | Some p \<Rightarrow>
                    d[p := (d ! p)\<lparr>childNodes :=
                        arraySplice (indexOf (childNodes (d ! p)) n) 1 [] (childNodes (d ! p))\<rparr>])
      in d1[n := (d1 ! n)\<lparr>parentNode := None\<rparr>])"

text \<open>Setting the parent reference of each node of a list, as a \<^verbatim>\<open>forEach\<close> does.\<close>

fun setParents :: "nat option \<Rightarrow> nat list \<Rightarrow> dom \<Rightarrow> dom" where
  "setParents p [] d = d"
| "setParents p (c # cs) d = setParents p cs (d[c := (d ! c)\<lparr>parentNode := p\<rparr>])"

text \<open>
  \<^verbatim>\<open>insertNode(parent, index, newNode, replace)\<close>, the worker of \<^verbatim>\<open>dom5.append\<close>,
  \<^verbatim>\<open>dom5.insertBefore\<close> and \<^verbatim>\<open>dom5.replace\<close>. A document fragment is dissolved:
  its children are inserted and the fragment is left empty. Any other node is first
  removed from where it is.
\<close>

definition insertNode :: "nat \<Rightarrow> int \<Rightarrow> nat \<Rightarrow> bool \<Rightarrow> dom \<Rightarrow> dom" where
  "insertNode parent index newNode repl d =
     (let frag = isDocumentFragment (d ! newNode);
          newNodes = (if frag then childNodes (d ! newNode) else [newNode]);
          d1 = (if frag then d[newNode := (d ! newNode)\<lparr>childNodes := []\<rparr>]
                else remove newNode d);
          removedNode = (if repl then at (childNodes (d1 ! parent)) index else None);
          d2 = d1[parent := (d1 ! parent)\<lparr>childNodes :=
                 arraySplice index (if repl then 1 else 0) newNodes (childNodes (d1 ! parent))\<rparr>];
          d3 = setParents (Some parent) newNodes d2
      in (case removedNode of None \<Rightarrow> d3
          | Some r \<Rightarrow> d3[r := (d3 ! r)\<lparr>parentNode := None\<rparr>]))"

definition append :: "nat \<Rightarrow> nat \<Rightarrow> dom \<Rightarrow> dom" where
  "append parent newNode d =
     insertNode parent (int (length (childNodes (d ! parent)))) newNode False d"

definition insertBefore :: "nat \<Rightarrow> nat \<Rightarrow> nat \<Rightarrow> dom \<Rightarrow> dom" where
  "insertBefore parent target newNode d =
     insertNode parent (indexOf (childNodes (d ! parent)) target) newNode False d"

definition replace :: "nat \<Rightarrow> nat \<Rightarrow> dom \<Rightarrow> error + dom" where
  "replace oldNode newNode d =
     (case parentNode (d ! oldNode) of
        None \<Rightarrow> Inl TypeError
      | Some parent \<Rightarrow>
          Inr (insertNode parent (indexOf (childNodes (d ! parent)) oldNode) newNode True d))"

definition getTextContent :: "node \<Rightarrow> string" where
  \<comment> \<open>The bundler reads the text of text nodes and of comments only.\<close>
  "getTextContent nd = nodeValue nd"

text \<open>
  \<^verbatim>\<open>dom5.setTextContent\<close>: a comment or a text node gets the text itself; any other
  node gets one new text node as its only child.
\<close>

definition setTextContent :: "nat \<Rightarrow> string \<Rightarrow> dom \<Rightarrow> dom" where
  "setTextContent n v d =
     (if isCommentNode (d ! n) \<or> isTextNode (d ! n) then d[n := (d ! n)\<lparr>nodeValue := v\<rparr>]
      else (let (tn, d1) = alloc ((newTextNode v)\<lparr>parentNode := Some n\<rparr>) d
            in d1[n := (d1 ! n)\<lparr>childNodes := [tn]\<rparr>]))"

text \<open>
  \<^verbatim>\<open>dom5.nodeWalk\<close> (the first match in document order) and \<^verbatim>\<open>dom5.nodeWalkAll\<close>
  (all matches). Both recurse through the child lists. The recursion is bounded by fuel:
  a path of more nodes than the store holds repeats a node, and on such a store the
  JavaScript recursion does not end; running out of fuel is the value \<open>None\<close>.
\<close>

fun nodeWalk :: "nat \<Rightarrow> dom \<Rightarrow> (node \<Rightarrow> bool) \<Rightarrow> nat \<Rightarrow> nat option option"
  and nodeWalkChildren :: "nat \<Rightarrow> dom \<Rightarrow> (node \<Rightarrow> bool) \<Rightarrow> nat list \<Rightarrow> nat option option"
where
  "nodeWalk 0 d P n = None"
| "nodeWalk (Suc k) d P n =
     (if P (d ! n) then Some (Some n) else nodeWalkChildren k d P (childNodes (d ! n)))"
| "nodeWalkChildren k d P [] = Some None"
| "nodeWalkChildren k d P (c # cs) =
     (case nodeWalk k d P c of
        None \<Rightarrow> None
      | Some (Some m) \<Rightarrow> Some (Some m)
      | Some None \<Rightarrow> nodeWalkChildren k d P cs)"

fun nodeWalkAll :: "nat \<Rightarrow> dom \<Rightarrow> (node \<Rightarrow> bool) \<Rightarrow> nat \<Rightarrow> nat list option"
  and nodeWalkAllChildren :: "nat \<Rightarrow> dom \<Rightarrow> (node \<Rightarrow> bool) \<Rightarrow> nat list \<Rightarrow> nat list option"
where
  "nodeWalkAll 0 d P n = None"
| "nodeWalkAll (Suc k) d P n =
     (case nodeWalkAllChildren k d P (childNodes (d ! n)) of
        None \<Rightarrow> None
      | Some ms \<Rightarrow> Some ((if P (d ! n) then [n] else []) @ ms))"
| "nodeWalkAllChildren k d P [] = Some []"
| "nodeWalkAllChildren k d P (c # cs) =
     (case nodeWalkAll k d P c of
        None \<Rightarrow> None
      | Some ms \<Rightarrow>
          (case nodeWalkAllChildren k d P cs of
             None \<Rightarrow> None
           | Some ms' \<Rightarrow> Some (ms @ ms')))"

definition query :: "dom \<Rightarrow> nat \<Rightarrow> (node \<Rightarrow> bool) \<Rightarrow> error + nat option" where
  "query d root P =
     (case nodeWalk (length d) d (\<lambda>nd. isElement nd \<and> P nd) root of
        None \<Rightarrow> Inl RangeError
      | Some r \<Rightarrow> Inr r)"

definition queryAll :: "dom \<Rightarrow> nat \<Rightarrow> (node \<Rightarrow> bool) \<Rightarrow> error + nat list" where
  "queryAll d root P =
     (case nodeWalkAll (length d) d (\<lambda>nd. isElement nd \<and> P nd) root of
        None \<Rightarrow> Inl RangeError
      | Some ms \<Rightarrow> Inr ms)"

section \<open>Configuration and collaborators\<close>

text \<open>
  The options object after the constructor (lines 51-75). \<^verbatim>\<open>excludes\<close> and
  \<^verbatim>\<open>stripExcludes\<close> are arrays of strings, each the source of a regular expression.
\<close>

record vulcan =
  implicitStrip :: bool
  abspath :: "string option"
  addedImports :: "string list"
  excludes :: "string list"
  stripExcludes :: "string list"
  stripComments :: bool
  enableCssInlining :: bool
  enableScriptInlining :: bool
  inputUrl :: string

text \<open>
  The import tree the analyzer hands over: \<^verbatim>\<open>tree.href\<close>, \<^verbatim>\<open>tree.html.ast\<close> (the
  document node), \<^verbatim>\<open>tree.html.import\<close> (the import site nodes) and
  \<^verbatim>\<open>tree.imports\<close> (here \<open>imports'\<close>: one tree per import edge, in document order; an absent list is the
  empty one, the loop at line 211 runs zero times for both).
\<close>

datatype tree = Tree (href: "string option") (ast: nat) (importNodes: "nat list") (imports': "tree list")

text \<open>
  The matchers of \<^verbatim>\<open>./matchers\<close> are not under src/; each is a parameter, a predicate
  on nodes.
\<close>

record matchers =
  head :: "node \<Rightarrow> bool"
  body :: "node \<Rightarrow> bool"
  meta :: "node \<Rightarrow> bool"
  polymerElement :: "node \<Rightarrow> bool"
  polymerExternalStyle :: "node \<Rightarrow> bool"
  JS_SRC :: "node \<Rightarrow> bool"
  JS_INLINE :: "node \<Rightarrow> bool"

text \<open>
  The collaborators the bundler calls and the constants of \<^verbatim>\<open>./constants\<close>, none of
  them under src/, are parameters as well:
  \<^item> \<open>search h r\<close> is \<^verbatim>\<open>h.search(r)\<close> for a pattern \<open>r\<close> that is a valid regular
    expression: the position of the first match, or \<open>-1\<close>;
  \<^item> \<open>EXTERNAL_URL h\<close> is \<^verbatim>\<open>constants.EXTERNAL_URL.test(h)\<close>, for a pattern without the
    flags \<^verbatim>\<open>g\<close> and \<^verbatim>\<open>y\<close>, whose \<^verbatim>\<open>test\<close> keeps no position between calls;
  \<^item> \<open>OLD_POLYMER\<close> is the message \<^verbatim>\<open>constants.OLD_POLYMER\<close>;
  \<^item> \<open>urlToPath\<close>, \<open>acid\<close> and \<open>resolvePaths\<close> are the methods of the path resolver
    (the last two rewrite the store);
  \<^item> \<open>urlResolve\<close> is \<^verbatim>\<open>url.resolve\<close>, \<open>encodeString\<close> the string encoder;
  \<^item> \<open>request\<close> is the loader: the body of a resource, a falsy value, or a rejection;
  \<^item> \<open>getDependencies\<close> and \<open>metadataTree\<close> are the \<^verbatim>\<open>_getDependencies\<close> and
    \<^verbatim>\<open>metadataTree\<close> of an analyzer of the polymer-analyzer package; the latter
    yields the import tree together with the store that holds the parsed documents;
  \<^item> \<open>serialize\<close> is \<^verbatim>\<open>dom5.serialize\<close>;
  \<^item> \<open>inlineCss\<close> is the stylesheet pass of lines 309-356, which is no subject of the
    properties below: the pipeline takes it as an arbitrary fallible rewriting of the store.
\<close>

record env =
  search :: "string \<Rightarrow> string \<Rightarrow> int"
  EXTERNAL_URL :: "string \<Rightarrow> bool"
  OLD_POLYMER :: string
  urlToPath :: "string option \<Rightarrow> string"
  acid :: "nat \<Rightarrow> string option \<Rightarrow> dom \<Rightarrow> error + dom"
  resolvePaths :: "nat \<Rightarrow> string option \<Rightarrow> string option \<Rightarrow> dom \<Rightarrow> error + dom"
  urlResolve :: "string option \<Rightarrow> string \<Rightarrow> error + string"
  encodeString :: "string \<Rightarrow> string"
  request :: "string \<Rightarrow> error + string option"
  getDependencies :: "string \<Rightarrow> error + string list"
  metadataTree :: "string \<Rightarrow> error + (tree \<times> dom)"
  serialize :: "dom \<Rightarrow> nat \<Rightarrow> string"
  inlineCss :: "nat \<Rightarrow> string option \<Rightarrow> dom \<Rightarrow> error + dom"

text \<open>
  Lines 365 and 404 are both \<^verbatim>\<open>const analyzer = new analyzer.Analyzer(true, loader)\<close>.
  The name \<^verbatim>\<open>analyzer\<close> in the initializer is the binding this very statement
  declares (line 26 imports \<^verbatim>\<open>Analyzer\<close>; nothing else in the file is called
  \<^verbatim>\<open>analyzer\<close>), and a \<^verbatim>\<open>const\<close> binding cannot be read before its initializer has
  finished: the read throws a ReferenceError, the constructor is never called, and the
  statement completes abruptly whatever the loader is. (Compiled to a \<^verbatim>\<open>var\<close>, the
  read gives \<^verbatim>\<open>undefined\<close> and the property access throws at the same place.) The
  value in the case of success, which does not occur, stands for the analyzer whose methods
  are the parameters \<open>getDependencies\<close> and \<open>metadataTree\<close>.
\<close>

definition newAnalyzer :: "error + unit" where
  "newAnalyzer = Inl ReferenceError"

section \<open>Policy predicates (lines 87-121)\<close>

definition isDuplicateImport :: "tree \<Rightarrow> bool" where
  "isDuplicateImport importMeta = (\<not> truthy (href importMeta))"

text \<open>
  Line 105 tests \<^verbatim>\<open>!this.excludes\<close>; the constructor always stores an array, which is
  truthy, so that branch is never taken.
\<close>

definition isExcludedHref :: "env \<Rightarrow> vulcan \<Rightarrow> string \<Rightarrow> bool" where
  "isExcludedHref E v h =
     (if EXTERNAL_URL E h then True
      else list_ex (\<lambda>r. search E h r \<ge> 0) (excludes v))"

text \<open>
  With an absent href the regular expression is tested against the text
  \<^verbatim>\<open>undefined\<close>, and \<^verbatim>\<open>href.search\<close> is a TypeError as soon as there is a pattern
  to try.
\<close>

definition isExcludedImport :: "env \<Rightarrow> vulcan \<Rightarrow> tree \<Rightarrow> error + bool" where
  "isExcludedImport E v importMeta =
     (case href importMeta of
        Some h \<Rightarrow> Inr (isExcludedHref E v h)
      | None \<Rightarrow>
          (if EXTERNAL_URL E ''undefined'' then Inr True
           else if excludes v = [] then Inr False else Inl TypeError))"

definition isStrippedImport :: "env \<Rightarrow> vulcan \<Rightarrow> tree \<Rightarrow> error + bool" where
  "isStrippedImport E v importMeta =
     (if stripExcludes v = [] then Inr False
      else (case href importMeta of
              None \<Rightarrow> Inl TypeError
            | Some h \<Rightarrow> Inr (list_ex (\<lambda>r. search E h r \<ge> 0) (stripExcludes v))))"

section \<open>Tree surgery helpers (lines 123-182 and 259-283)\<close>

definition isBlankTextNode :: "dom \<Rightarrow> nat option \<Rightarrow> bool" where
  "isBlankTextNode d node =
     (case node of
        None \<Rightarrow> False
      | Some n \<Rightarrow> isTextNode (d ! n) \<and> \<not> list_ex (\<lambda>c. \<not> isSpace c) (getTextContent (d ! n)))"

definition hasOldPolymer :: "matchers \<Rightarrow> dom \<Rightarrow> nat \<Rightarrow> error + bool" where
  "hasOldPolymer M d doc = bind (query d doc (polymerElement M)) (\<lambda>r. Inr (r \<noteq> None))"

text \<open>
  \<open>node\<close> is \<open>None\<close> when the caller passes \<^verbatim>\<open>undefined\<close> (an import edge with no
  import site); \<open>replacement\<close> is \<open>None\<close> when the second argument is left out.
\<close>

definition removeElementAndNewline :: "nat option \<Rightarrow> nat option \<Rightarrow> dom \<Rightarrow> error + dom" where
  "removeElementAndNewline node replacement d =
     (case node of
        None \<Rightarrow> Inl TypeError
      | Some n \<Rightarrow>
          (case parentNode (d ! n) of
             None \<Rightarrow> Inl TypeError
           | Some parent \<Rightarrow>
               (let nextIdx = indexOf (childNodes (d ! parent)) n + 1;
                    next = at (childNodes (d ! parent)) nextIdx;
                    d1 = (if isBlankTextNode d next then remove (the next) d else d)
                in (case replacement of
                      Some r \<Rightarrow> replace n r d1
                    | None \<Rightarrow> Inr (remove n d1)))))"

definition isLicenseComment :: "node \<Rightarrow> bool" where
  "isLicenseComment nd =
     (if isCommentNode nd then containsStr (getTextContent nd) ''@license'' else False)"

definition moveToBodyMatcher :: "matchers \<Rightarrow> node \<Rightarrow> bool" where
  "moveToBodyMatcher M nd =
     ((hasTagName ''script'' nd \<or> hasTagName ''link'' nd) \<and> \<not> polymerExternalStyle M nd)"

text \<open>
  The two \<^verbatim>\<open>while\<close> loops that climb the parent references. A chain of more nodes
  than the store holds is cyclic and the loop does not end: out of fuel is \<open>None\<close>.
\<close>

fun ancestorWalkLoop :: "nat \<Rightarrow> dom \<Rightarrow> nat option \<Rightarrow> nat \<Rightarrow> bool option" where
  "ancestorWalkLoop k d None target = Some False"
| "ancestorWalkLoop 0 d (Some n) target = None"
| "ancestorWalkLoop (Suc k) d (Some n) target =
     (if n = target then Some True else ancestorWalkLoop k d (parentNode (d ! n)) target)"

definition ancestorWalk :: "dom \<Rightarrow> nat option \<Rightarrow> nat \<Rightarrow> error + bool" where
  "ancestorWalk d node target =
     (case ancestorWalkLoop (length d) d node target of None \<Rightarrow> Inl NoReturn | Some b \<Rightarrow> Inr b)"

fun isTemplatedLoop :: "nat \<Rightarrow> dom \<Rightarrow> nat option \<Rightarrow> bool option" where
  "isTemplatedLoop k d None = Some False"
| "isTemplatedLoop 0 d (Some n) = None"
| "isTemplatedLoop (Suc k) d (Some n) =
     (if isDocumentFragment (d ! n) then Some True else isTemplatedLoop k d (parentNode (d ! n)))"

definition isTemplated :: "dom \<Rightarrow> nat option \<Rightarrow> error + bool" where
  "isTemplated d node =
     (case isTemplatedLoop (length d) d node of None \<Rightarrow> Inl NoReturn | Some b \<Rightarrow> Inr b)"

definition hide :: "nat option \<Rightarrow> dom \<Rightarrow> error + dom" where
  "hide node d =
     (let (hidden, d1) = alloc (newElement ''div'') d;
          d2 = setAttribute hidden ''hidden'' '''' d1;
          d3 = setAttribute hidden ''by-vulcanize'' '''' d2
      in bind (removeElementAndNewline node (Some hidden) d3) (\<lambda>d4.
           Inr (append hidden (the node) d4)))"

definition prepend :: "nat option \<Rightarrow> nat \<Rightarrow> dom \<Rightarrow> error + dom" where
  "prepend parent node d =
     (case parent of
        None \<Rightarrow> Inl TypeError
      | Some p \<Rightarrow>
          (if childNodes (d ! p) \<noteq> [] then Inr (insertBefore p (hd (childNodes (d ! p))) node d)
           else Inr (append p node d)))"

fun fixScripts :: "nat list \<Rightarrow> dom \<Rightarrow> dom" where
  "fixScripts [] d = d"
| "fixScripts (script # scripts) d =
     fixScripts scripts
       (if truthy (hydrolysisInlined (d ! script))
        then setTextContent script ''''
               (setAttribute script ''src'' (the (hydrolysisInlined (d ! script))) d)
        else d)"

definition fixFakeExternalScripts :: "matchers \<Rightarrow> nat \<Rightarrow> dom \<Rightarrow> error + dom" where
  "fixFakeExternalScripts M doc d =
     bind (queryAll d doc (JS_INLINE M)) (\<lambda>scripts. Inr (fixScripts scripts d))"

section \<open>The flattening engine (lines 184-257)\<close>

text \<open>Lines 196-204: the relocation target.\<close>

definition newMoveTarget :: "bool \<Rightarrow> dom \<Rightarrow> nat \<times> dom" where
  "newMoveTarget isMainDoc d =
     (if isMainDoc then
        (let (moveTarget, d1) = alloc (newElement ''div'') d;
             d2 = setAttribute moveTarget ''hidden'' '''' d1
         in (moveTarget, setAttribute moveTarget ''by-vulcanize'' '''' d2))
      else alloc newDocumentFragment d)"

text \<open>Lines 205-208: the \<^verbatim>\<open>forEach\<close> over the filtered children of the head.\<close>

fun moveToTarget :: "nat \<Rightarrow> nat list \<Rightarrow> dom \<Rightarrow> error + dom" where
  "moveToTarget moveTarget [] d = Inr d"
| "moveToTarget moveTarget (n # ns) d =
     bind (removeElementAndNewline (Some n) None d) (\<lambda>d1.
       moveToTarget moveTarget ns (append moveTarget n d1))"

text \<open>Lines 185-209: everything \<^verbatim>\<open>flatten\<close> does before the loop over the imports.\<close>

definition flattenStart ::
  "env \<Rightarrow> matchers \<Rightarrow> tree \<Rightarrow> bool \<Rightarrow> dom \<Rightarrow> error + (nat \<times> dom)" where
  "flattenStart E M tree isMainDoc d =
     (let doc = ast tree in
      bind (query d doc (head M)) (\<lambda>headNode.
      bind (query d doc (body M)) (\<lambda>bodyNode.
      bind (hasOldPolymer M d doc) (\<lambda>old.
        if old then Inl (Error (OLD_POLYMER E @ '' File: '' @ urlToPath E (href tree)))
        else
          bind (fixFakeExternalScripts M doc d) (\<lambda>d1.
          bind (acid E doc (href tree) d1) (\<lambda>d2.
            (let (moveTarget, d3) = newMoveTarget isMainDoc d2 in
             (case headNode of
                None \<Rightarrow> Inl TypeError
              | Some h \<Rightarrow>
                  bind (moveToTarget moveTarget
                          (filter (\<lambda>n. moveToBodyMatcher M (d3 ! n)) (childNodes (d3 ! h))) d3)
                    (\<lambda>d4.
                  bind (prepend bodyNode moveTarget d4) (\<lambda>d5. Inr (moveTarget, d5)))))))))))"

text \<open>Lines 245-249: the import site gives way to the merged fragment.\<close>

definition placeImport :: "bool \<Rightarrow> nat \<Rightarrow> nat option \<Rightarrow> nat \<Rightarrow> dom \<Rightarrow> error + dom" where
  "placeImport isMainDoc moveTarget thisImport bodyFragment d =
     bind (if isMainDoc
           then bind (ancestorWalk d thisImport moveTarget) (\<lambda>inside.
                  if \<not> inside then hide thisImport d else Inr d)
           else Inr d)
       (\<lambda>d1. removeElementAndNewline thisImport (Some bodyFragment) d1)"

text \<open>
  Lines 226-249: what one iteration does with the flattened import document
  \<open>importDoc\<close>, after the recursive call has returned.
\<close>

definition mergeImport ::
  "env \<Rightarrow> matchers \<Rightarrow> bool \<Rightarrow> nat \<Rightarrow> string option \<Rightarrow> tree \<Rightarrow> nat option \<Rightarrow> nat \<Rightarrow> dom
     \<Rightarrow> error + dom" where
  "mergeImport E M isMainDoc moveTarget treeHref im thisImport bodyFragment d =
     (let importDoc = ast im in
      bind (resolvePaths E importDoc (href im) treeHref d) (\<lambda>d1.
      bind (query d1 importDoc (head M)) (\<lambda>importHead.
      bind (query d1 importDoc (body M)) (\<lambda>importBody.
        (case importHead of
           None \<Rightarrow> Inl TypeError
         | Some ih \<Rightarrow>
        (case importBody of
           None \<Rightarrow> Inl TypeError
         | Some ib \<Rightarrow>
        (case parentNode (d1 ! ih) of
           None \<Rightarrow> Inl TypeError
         | Some importHtml \<Rightarrow>
            (let importHeadChildren = childNodes (d1 ! ih);
                 importBodyChildren = childNodes (d1 ! ib);
                 licenseComments =
                   filter (\<lambda>n. isLicenseComment (d1 ! n))
                     (childNodes (d1 ! importDoc) @ childNodes (d1 ! importHtml));
                 d2 = setParents (Some bodyFragment) importHeadChildren d1;
                 d3 = setParents (Some bodyFragment) importBodyChildren d2;
                 d4 = d3[bodyFragment := (d3 ! bodyFragment)\<lparr>childNodes :=
                        childNodes (d3 ! bodyFragment) @ licenseComments @ importHeadChildren
                          @ importBodyChildren\<rparr>]
             in placeImport isMainDoc moveTarget thisImport bodyFragment d4))))))))"

text \<open>Lines 252-256.\<close>

definition flattenEnd :: "bool \<Rightarrow> nat \<Rightarrow> dom \<Rightarrow> dom" where
  "flattenEnd isMainDoc moveTarget d =
     (if isMainDoc \<and> childNodes (d ! moveTarget) = [] then remove moveTarget d else d)"

text \<open>
  \<^verbatim>\<open>flatten\<close> and its loop over the import edges. \<open>flattenImports\<close> is the
  \<^verbatim>\<open>for\<close> loop from index \<open>i\<close> on: the first edge of the list is \<^verbatim>\<open>imports[i]\<close>,
  its import site is \<^verbatim>\<open>importNodes[i]\<close>. The result of \<^verbatim>\<open>flatten\<close> is the document
  node it was given, so the model returns the store alone.
\<close>

fun flatten :: "env \<Rightarrow> matchers \<Rightarrow> vulcan \<Rightarrow> tree \<Rightarrow> bool \<Rightarrow> dom \<Rightarrow> error + dom"
  and flattenImports ::
    "env \<Rightarrow> matchers \<Rightarrow> vulcan \<Rightarrow> bool \<Rightarrow> nat \<Rightarrow> string option \<Rightarrow> nat list \<Rightarrow> tree list \<Rightarrow> nat
       \<Rightarrow> dom \<Rightarrow> error + dom"
where
  "flatten E M v (Tree h doc sites ims) isMainDoc d =
     bind (flattenStart E M (Tree h doc sites ims) isMainDoc d) (\<lambda>(moveTarget, d1).
     bind (flattenImports E M v isMainDoc moveTarget h sites ims 0 d1) (\<lambda>d2.
       Inr (flattenEnd isMainDoc moveTarget d2)))"
| "flattenImports E M v isMainDoc moveTarget treeHref sites [] i d = Inr d"
| "flattenImports E M v isMainDoc moveTarget treeHref sites (im # ims) i d =
     (let thisImport = at sites (int i) in
      bind
        (bind (if isDuplicateImport im then Inr True else isStrippedImport E v im) (\<lambda>elide.
           if elide then removeElementAndNewline thisImport None d
           else
             bind (isExcludedImport E v im) (\<lambda>excluded.
               if excluded then Inr d
               else
                 bind (isTemplated d thisImport) (\<lambda>templated.
                   if templated then Inr d
                   else
                     (let (bodyFragment, d1) = alloc newDocumentFragment d in
                      bind (flatten E M v im False d1) (\<lambda>d2.
                        mergeImport E M isMainDoc moveTarget treeHref im thisImport
                          bodyFragment d2))))))
        (\<lambda>d'. flattenImports E M v isMainDoc moveTarget treeHref sites ims (Suc i) d'))"

section \<open>Inlining of scripts (lines 286-305)\<close>

text \<open>
  The callback of \<^verbatim>\<open>scripts.map\<close> runs for every script before any response arrives:
  it reads the \<^verbatim>\<open>src\<close> attribute, resolves it and either answers at once (an excluded
  source, \<open>None\<close>) or asks the loader for the resolved address.
\<close>

fun scriptRequests :: "env \<Rightarrow> vulcan \<Rightarrow> string option \<Rightarrow> dom \<Rightarrow> nat list
    \<Rightarrow> error + (nat \<times> string option) list" where
  "scriptRequests E v baseHref d [] = Inr []"
| "scriptRequests E v baseHref d (script # scripts) =
     (case getAttribute (d ! script) ''src'' of
        None \<Rightarrow> Inl TypeError
      | Some src \<Rightarrow>
          bind (urlResolve E baseHref src) (\<lambda>uri.
          bind (scriptRequests E v baseHref d scripts) (\<lambda>rs.
            Inr ((script, if isExcludedHref E v src then None else Some uri) # rs))))"

text \<open>
  The \<^verbatim>\<open>then\<close> callbacks, one per request, taken in document order (each touches its
  own script element and a text node it creates). A rejected request fails the join.
\<close>

fun scriptResponses :: "env \<Rightarrow> (nat \<times> string option) list \<Rightarrow> dom \<Rightarrow> error + dom" where
  "scriptResponses E [] d = Inr d"
| "scriptResponses E ((script, None) # rs) d = scriptResponses E rs d"
| "scriptResponses E ((script, Some uri) # rs) d =
     bind (request E uri) (\<lambda>content.
       scriptResponses E rs
         (if truthy content
          then setTextContent script (encodeString E (the content))
                 (removeAttribute script ''src'' d)
          else d))"

definition inlineScripts :: "env \<Rightarrow> matchers \<Rightarrow> vulcan \<Rightarrow> nat \<Rightarrow> string option \<Rightarrow> dom \<Rightarrow> error + dom" where
  "inlineScripts E M v doc baseHref d =
     bind (queryAll d doc (JS_SRC M)) (\<lambda>scripts.
     bind (scriptRequests E v baseHref d scripts) (\<lambda>rs.
       scriptResponses E rs d))"

section \<open>Implicit excludes (lines 358-393)\<close>

text \<open>
  \<^verbatim>\<open>exclude.match(/.js$/)\<close> and \<^verbatim>\<open>exclude.match(/.css$/)\<close>: the dot is not escaped, it
  stands for any character but a line terminator, and \<^verbatim>\<open>$\<close> is the end of the text.
\<close>

definition isLineTerminator :: "char \<Rightarrow> bool" where
  "isLineTerminator c = (let k = (of_char c :: nat) in k = 10 \<or> k = 13)"

definition matchAnyThen :: "string \<Rightarrow> string \<Rightarrow> bool" where
  "matchAnyThen suffix s =
     (let n = length s; m = length suffix
      in m < n \<and> drop (n - m) s = suffix \<and> \<not> isLineTerminator (s ! (n - m - 1)))"

definition decorate :: "string \<Rightarrow> error \<Rightarrow> error" where
  "decorate suffix e =
     (case e of Error m \<Rightarrow> Error (m @ suffix) | Rejection m \<Rightarrow> Rejection (m @ suffix) | _ \<Rightarrow> e)"

text \<open>The \<^verbatim>\<open>forEach\<close> of lines 367-383: the list \<^verbatim>\<open>analyzedExcludes\<close> it builds.\<close>

fun analyzedExcludes :: "env \<Rightarrow> string list \<Rightarrow> (error + string list) list" where
  "analyzedExcludes E [] = []"
| "analyzedExcludes E (exclude # rest) =
     (if matchAnyThen ''js'' exclude then analyzedExcludes E rest
      else if matchAnyThen ''css'' exclude then analyzedExcludes E rest
      else if exclude \<noteq> [] \<and> last exclude = CHR ''/'' then analyzedExcludes E rest
      else (case getDependencies E exclude of
              Inl err \<Rightarrow>
                Inl (decorate (''. Could not read dependencies for excluded URL: '' @ exclude) err)
            | Inr deps \<Rightarrow> Inr deps) # analyzedExcludes E rest)"

text \<open>\<^verbatim>\<open>Promise.all\<close>: all the values, or a rejection (the first of the list here).\<close>

fun promiseAll :: "(error + 'a) list \<Rightarrow> error + 'a list" where
  "promiseAll [] = Inr []"
| "promiseAll (Inl e # ps) = Inl e"
| "promiseAll (Inr x # ps) = bind (promiseAll ps) (\<lambda>xs. Inr (x # xs))"

text \<open>
  The properties of the object \<^verbatim>\<open>dedupe\<close> after the assignments
  \<^verbatim>\<open>dedupe[exclude] = true\<close>, in the order of their creation: each text once, where it
  was first assigned.
\<close>

fun dedupeKeys :: "string list \<Rightarrow> string list \<Rightarrow> string list" where
  "dedupeKeys keys [] = keys"
| "dedupeKeys keys (x # xs) = dedupeKeys (if x \<in> set keys then keys else keys @ [x]) xs"

text \<open>
  \<^verbatim>\<open>Object.keys\<close>: the keys that are array indices (the canonical decimal numerals of
  the numbers below \<open>2\<^sup>3\<^sup>2 - 1\<close>) come first, in ascending numeric order; the other keys
  follow in the order of their creation.
\<close>

definition isDigit :: "char \<Rightarrow> bool" where
  "isDigit c = (let k = (of_char c :: nat) in 48 \<le> k \<and> k \<le> 57)"

definition digitsValue :: "string \<Rightarrow> nat" where
  "digitsValue s = foldl (\<lambda>n c. 10 * n + (of_char c - 48)) 0 s"

definition isArrayIndex :: "string \<Rightarrow> bool" where
  "isArrayIndex s =
     (s \<noteq> [] \<and> list_all isDigit s \<and> (if hd s = CHR ''0'' then length s = 1 else True)
      \<and> digitsValue s < 4294967295)"

definition objectKeys :: "string list \<Rightarrow> string list" where
  "objectKeys created =
     sort_key digitsValue (filter isArrayIndex created)
       @ filter (\<lambda>k. \<not> isArrayIndex k) created"

text \<open>
  \<^verbatim>\<open>getImplicitExcludes\<close> builds a loader (lines 360-364, of no effect on what
  follows) and then constructs the analyzer (line 365). An exception of the call itself is
  the outer \<open>Inl\<close>; otherwise the call returns a promise, and the inner value is what the
  promise settles to.
\<close>

definition getImplicitExcludes :: "env \<Rightarrow> string list \<Rightarrow> error + (error + string list)" where
  "getImplicitExcludes E excl =
     bind newAnalyzer (\<lambda>analyzer.
       Inr (bind (promiseAll (analyzedExcludes E excl)) (\<lambda>strippedExcludes.
              Inr (objectKeys (dedupeKeys [] (concat strippedExcludes))))))"

section \<open>The comment map\<close>

text \<open>
  Modelled from the spec: \<^verbatim>\<open>./comment-map\<close> is not under src/. Section 4.5: a mapping
  from comment text to the first comment node met with that text, insertion order kept;
  \<open>set\<close> inserts only if the text is unseen, \<open>keys\<close> gives the texts in the order of
  their first insertion.
\<close>

type_synonym commentMap = "(string \<times> nat) list"

definition commentMapSet :: "commentMap \<Rightarrow> string \<Rightarrow> nat \<Rightarrow> commentMap" where
  "commentMapSet m key node = (if map_of m key = None then m @ [(key, node)] else m)"

definition commentMapGet :: "commentMap \<Rightarrow> string \<Rightarrow> nat option" where
  "commentMapGet m key = map_of m key"

definition commentMapKeys :: "commentMap \<Rightarrow> string list" where
  "commentMapKeys m = map fst m"

section \<open>The pipeline (lines 395-458)\<close>

text \<open>Lines 412-417: one new import link per added import, each put first in the head.\<close>

fun addImports :: "nat option \<Rightarrow> string list \<Rightarrow> dom \<Rightarrow> error + dom" where
  "addImports headNode [] d = Inr d"
| "addImports headNode (a # as) d =
     (let (newImport, d1) = alloc (newElement ''link'') d;
          d2 = setAttribute newImport ''rel'' ''import'' d1;
          d3 = setAttribute newImport ''href'' a d2
      in bind (prepend headNode newImport d3) (\<lambda>d4. addImports headNode as d4))"

text \<open>Lines 418-422.\<close>

definition ensureMeta :: "nat option \<Rightarrow> nat option \<Rightarrow> dom \<Rightarrow> error + dom" where
  "ensureMeta metaNode headNode d =
     (if metaNode = None then
        (let (m, d1) = alloc (newElement ''meta'') d;
             d2 = setAttribute m ''charset'' ''UTF-8'' d1
         in prepend headNode m d2)
      else Inr d)"

text \<open>Lines 407-424: the stage that flattens the tree of the root document.\<close>

definition flattenStage :: "env \<Rightarrow> matchers \<Rightarrow> vulcan \<Rightarrow> tree \<Rightarrow> dom \<Rightarrow> error + dom" where
  "flattenStage E M v tree d =
     bind (flatten E M v tree True d) (\<lambda>d1.
     bind (query d1 (ast tree) (meta M)) (\<lambda>metaNode.
     bind (query d1 (ast tree) (head M)) (\<lambda>headNode.
     bind (addImports headNode (addedImports v) d1) (\<lambda>d2.
       ensureMeta metaNode headNode d2))))"

text \<open>Lines 441-444: every comment is recorded in the map and removed.\<close>

fun removeComments :: "nat list \<Rightarrow> commentMap \<Rightarrow> dom \<Rightarrow> commentMap \<times> dom" where
  "removeComments [] comments d = (comments, d)"
| "removeComments (comment # cs) comments d =
     removeComments cs (commentMapSet comments (nodeValue (d ! comment)) comment) (remove comment d)"

text \<open>Lines 446-451: the license comments go back, each put first in the head.\<close>

fun restoreLicenses :: "nat option \<Rightarrow> commentMap \<Rightarrow> string list \<Rightarrow> dom \<Rightarrow> error + dom" where
  "restoreLicenses headNode comments [] d = Inr d"
| "restoreLicenses headNode comments (commentData # keys) d =
     (if \<not> containsStr commentData ''@license'' then restoreLicenses headNode comments keys d
      else (case commentMapGet comments commentData of
              None \<Rightarrow> Inl TypeError
            | Some c \<Rightarrow>
                bind (prepend headNode c d) (\<lambda>d1. restoreLicenses headNode comments keys d1)))"

text \<open>Lines 436-453: the stage that strips the comments.\<close>

definition stripCommentsStage :: "matchers \<Rightarrow> nat \<Rightarrow> dom \<Rightarrow> error + dom" where
  "stripCommentsStage M doc d =
     bind (query d doc (head M)) (\<lambda>headNode.
       (case nodeWalkAll (length d) d isCommentNode doc of
          None \<Rightarrow> Inl RangeError
        | Some cs \<Rightarrow>
            (let (comments, d1) = removeComments cs [] d
             in restoreLicenses headNode comments (commentMapKeys comments) d1)))"

text \<open>
  What a call of \<^verbatim>\<open>_process\<close> comes to. The statements of lines 396-404 run before the
  call returns; an exception there leaves \<^verbatim>\<open>_process\<close> for its caller, at a moment when
  the handler of line 457 is not yet attached, and the completion callback is never called.
  Past line 404 the outcome is what the chain of promises hands to the callback: the error
  of \<^verbatim>\<open>cb(err)\<close> (and no document), or the serialized document of
  \<^verbatim>\<open>cb(null, html)\<close>.
\<close>

datatype outcome =
    Thrown error
  | Callback "error + string"

text \<open>
  \<^verbatim>\<open>_process\<close>. Line 397 tests \<^verbatim>\<open>this.implicitStrip && this.excludes\<close>, and the
  array \<^verbatim>\<open>excludes\<close> is truthy. The chain of lines 397-403 settles to the options
  with the implicit excludes pushed onto \<^verbatim>\<open>stripExcludes\<close>.
\<close>

definition process' :: "env \<Rightarrow> matchers \<Rightarrow> vulcan \<Rightarrow> string \<Rightarrow> outcome" where
  "process' E M v target =
     (case (if implicitStrip v
            then bind (getImplicitExcludes E (excludes v)) (\<lambda>promise.
                   Inr (bind promise (\<lambda>implicitExcludes.
                          Inr (v\<lparr>stripExcludes := stripExcludes v @ implicitExcludes\<rparr>))))
            else Inr (Inr v)) of
        Inl e \<Rightarrow> Thrown e
      | Inr chain \<Rightarrow>
          (case newAnalyzer of
             Inl e \<Rightarrow> Thrown e
           | Inr analyzer \<Rightarrow>
               Callback
                 (bind chain (\<lambda>v1.
                  bind (metadataTree E target) (\<lambda>(tree, d).
                  bind (flattenStage E M v1 tree d) (\<lambda>d1.
                  bind (if enableScriptInlining v
                        then inlineScripts E M v1 (ast tree) (href tree) d1
                        else Inr d1) (\<lambda>d2.
                  bind (if enableCssInlining v then inlineCss E (ast tree) (href tree) d2
                        else Inr d2) (\<lambda>d3.
                  bind (if stripComments v then stripCommentsStage M (ast tree) d3
                        else Inr d3) (\<lambda>d4.
                    Inr (serialize E d4 (ast tree)))))))))))"

section \<open>Notions used in the statements\<close>

text \<open>
  \<open>attached d p n\<close>: the node \<open>n\<close> is a child of \<open>p\<close> and its parent reference says
  so, as for every node of a parsed document that has not been detached.
  \<open>nextSibling d p n\<close> is the node that \<^verbatim>\<open>removeElementAndNewline\<close> looks at after \<open>n\<close>.
\<close>

definition attached :: "dom \<Rightarrow> nat \<Rightarrow> nat \<Rightarrow> bool" where
  "attached d p n =
     (n < length d \<and> p < length d \<and> parentNode (d ! n) = Some p \<and> n \<in> set (childNodes (d ! p)))"

definition nextSibling :: "dom \<Rightarrow> nat \<Rightarrow> nat \<Rightarrow> nat option" where
  "nextSibling d p n = at (childNodes (d ! p)) (indexOf (childNodes (d ! p)) n + 1)"

text \<open>The nodes that \<open>insertNode\<close> puts in: the children of a fragment, or the node itself.\<close>

definition newNodesOf :: "dom \<Rightarrow> nat \<Rightarrow> nat list" where
  "newNodesOf d x = (if isDocumentFragment (d ! x) then childNodes (d ! x) else [x])"

text \<open>The wrapper that \<^verbatim>\<open>hide\<close> and line 199 build.\<close>

definition hiddenDiv :: node where
  "hiddenDiv = (newElement ''div'')\<lparr>attrs := [(''hidden'', []), (''by-vulcanize'', [])]\<rparr>"

text \<open>
  A script element \<open>s\<close> of the store \<open>d'\<close> was inlined from the element \<open>old\<close>: the
  first \<^verbatim>\<open>src\<close> attribute is gone and the only child is a text node with the encoded body.
  \<open>settled\<close> is the outcome for a script whose request was \<open>u\<close> (\<open>None\<close> for an excluded
  source, which is not requested).
\<close>

definition inlined :: "env \<Rightarrow> node \<Rightarrow> dom \<Rightarrow> nat \<Rightarrow> string \<Rightarrow> bool" where
  "inlined E old d' s content =
     (attrs (d' ! s) = removeFirstAttr ''src'' (attrs old) \<and> nodeName (d' ! s) = nodeName old
      \<and> (\<exists>t. childNodes (d' ! s) = [t] \<and> t < length d' \<and> isTextNode (d' ! t)
             \<and> nodeValue (d' ! t) = encodeString E content \<and> parentNode (d' ! t) = Some s))"

definition settled :: "env \<Rightarrow> node \<Rightarrow> dom \<Rightarrow> nat \<Rightarrow> string option \<Rightarrow> bool" where
  "settled E old d' s u =
     (case u of
        None \<Rightarrow> d' ! s = old
      | Some uri \<Rightarrow>
          (\<exists>content. request E uri = Inr content
             \<and> (if truthy content then inlined E old d' s (the content) else d' ! s = old)))"

text \<open>
  \<open>pushFirst h nd d\<close>: the store \<open>d\<close> with the new node \<open>nd\<close> as the first child of \<open>h\<close>.
  \<open>linkNode\<close> and \<open>metaCharset\<close> are the elements lines 413-415 and 419-420 build;
  \<open>linksAdded h as d d'\<close> says that \<open>d'\<close> is \<open>d\<close> with one link per added import, each put
  first in \<open>h\<close>, and nothing else changed.
\<close>

definition pushFirst :: "nat \<Rightarrow> node \<Rightarrow> dom \<Rightarrow> dom" where
  "pushFirst h nd d =
     d[h := (d ! h)\<lparr>childNodes := length d # childNodes (d ! h)\<rparr>] @ [nd\<lparr>parentNode := Some h\<rparr>]"

definition linkNode :: "string \<Rightarrow> node" where
  "linkNode a = (newElement ''link'')\<lparr>attrs := [(''rel'', ''import''), (''href'', a)]\<rparr>"

definition metaCharset :: node where
  "metaCharset = (newElement ''meta'')\<lparr>attrs := [(''charset'', ''UTF-8'')]\<rparr>"

definition linksAdded :: "nat \<Rightarrow> string list \<Rightarrow> dom \<Rightarrow> dom \<Rightarrow> bool" where
  "linksAdded h as d d' =
     (length d' = length d + length as
      \<and> d' ! h = (d ! h)\<lparr>childNodes := rev [length d..<length d + length as] @ childNodes (d ! h)\<rparr>
      \<and> (\<forall>i<length as. d' ! (length d + i) = (linkNode (as ! i))\<lparr>parentNode := Some h\<rparr>)
      \<and> (\<forall>n<length d. n \<noteq> h \<longrightarrow> d' ! n = d ! n))"

text \<open>
  For the comments: \<open>licenseFirsts d seen cs\<close> picks, for each license text of the comments
  \<open>cs\<close> that is not in \<open>seen\<close>, the first comment that carries it. \<open>detachedFrom d R d1\<close>
  says that \<open>d1\<close> is \<open>d\<close> after the nodes \<open>R\<close> were removed from their parents.
  \<open>recordAll\<close> is the comment map after the comments of a list were recorded,
  \<open>licenseNodes\<close> its nodes with a license text, \<open>prependAll\<close> a sequence of calls of
  \<^verbatim>\<open>prepend\<close>.
\<close>

fun licenseFirsts :: "dom \<Rightarrow> string list \<Rightarrow> nat list \<Rightarrow> nat list" where
  "licenseFirsts d seen [] = []"
| "licenseFirsts d seen (c # cs) =
     (if nodeValue (d ! c) \<in> set seen then licenseFirsts d seen cs
      else (if containsStr (nodeValue (d ! c)) ''@license'' then [c] else [])
             @ licenseFirsts d (nodeValue (d ! c) # seen) cs)"

definition detachedFrom :: "dom \<Rightarrow> nat list \<Rightarrow> dom \<Rightarrow> bool" where
  "detachedFrom d R d1 =
     (length d1 = length d
      \<and> (\<forall>m. childNodes (d1 ! m) =
            filter (\<lambda>x. \<not> (x \<in> set R \<and> parentNode (d ! x) = Some m)) (childNodes (d ! m)))
      \<and> (\<forall>m<length d. parentNode (d1 ! m) = (if m \<in> set R then None else parentNode (d ! m)))
      \<and> (\<forall>m. nodeName (d1 ! m) = nodeName (d ! m) \<and> nodeValue (d1 ! m) = nodeValue (d ! m)))"

fun recordAll :: "dom \<Rightarrow> nat list \<Rightarrow> commentMap \<Rightarrow> commentMap" where
  "recordAll d [] comments = comments"
| "recordAll d (c # cs) comments = recordAll d cs (commentMapSet comments (nodeValue (d ! c)) c)"

definition licenseNodes :: "commentMap \<Rightarrow> nat list" where
  "licenseNodes comments = map snd (filter (\<lambda>kc. containsStr (fst kc) ''@license'') comments)"

fun prependAll :: "nat option \<Rightarrow> nat list \<Rightarrow> dom \<Rightarrow> error + dom" where
  "prependAll headNode [] d = Inr d"
| "prependAll headNode (c # cs) d = bind (prepend headNode c d) (\<lambda>d1. prependAll headNode cs d1)"

text \<open>The reading of the claim on implicit excludes: a text ends in a given suffix.\<close>

definition endsWith :: "string \<Rightarrow> string \<Rightarrow> bool" where
  "endsWith suffix s = (length suffix \<le> length s \<and> drop (length s - length suffix) s = suffix)"

section \<open>Example documents and collaborators\<close>

text \<open>
  Concrete values on which the theorems below are instantiated: matchers for the usual
  tags, a pattern search that reads a pattern literally, a loader that knows one script,
  an analyzer that knows one dependency, and parsed documents.
\<close>

definition mkDocument :: "nat list \<Rightarrow> node" where
  "mkDocument cs = \<lparr>nodeName = ''#document'', tagName = None, attrs = [], nodeValue = [],
     childNodes = cs, parentNode = None, hydrolysisInlined = None\<rparr>"

definition mkElement :: "string \<Rightarrow> (string \<times> string) list \<Rightarrow> nat list \<Rightarrow> nat \<Rightarrow> node" where
  "mkElement tag as cs p = \<lparr>nodeName = tag, tagName = Some tag, attrs = as, nodeValue = [],
     childNodes = cs, parentNode = Some p, hydrolysisInlined = None\<rparr>"

definition mkText :: "string \<Rightarrow> nat \<Rightarrow> node" where
  "mkText s p = \<lparr>nodeName = ''#text'', tagName = None, attrs = [], nodeValue = s,
     childNodes = [], parentNode = Some p, hydrolysisInlined = None\<rparr>"

definition mkComment :: "string \<Rightarrow> nat \<Rightarrow> node" where
  "mkComment s p = \<lparr>nodeName = ''#comment'', tagName = None, attrs = [], nodeValue = s,
     childNodes = [], parentNode = Some p, hydrolysisInlined = None\<rparr>"

definition hasAttrValue :: "string \<Rightarrow> string \<Rightarrow> node \<Rightarrow> bool" where
  "hasAttrValue name v nd = (getAttribute nd name = Some v)"

definition exampleMatchers :: matchers where
  "exampleMatchers = \<lparr>
     head = hasTagName ''head'',
     body = hasTagName ''body'',
     meta = (\<lambda>nd. hasTagName ''meta'' nd \<and> hasAttrValue ''charset'' ''UTF-8'' nd),
     polymerElement = hasTagName ''polymer-element'',
     polymerExternalStyle = (\<lambda>nd. hasTagName ''link'' nd \<and> hasAttrValue ''rel'' ''import'' nd
        \<and> hasAttrValue ''type'' ''css'' nd),
     JS_SRC = (\<lambda>nd. hasAttr ''src'' nd \<and> hasTagName ''script'' nd),
     JS_INLINE = (\<lambda>nd. \<not> hasAttr ''src'' nd \<and> hasTagName ''script'' nd)\<rparr>"

fun literalSearch :: "string \<Rightarrow> string \<Rightarrow> int" where
  "literalSearch [] r = (if r = [] then 0 else -1)"
| "literalSearch (c # cs) r =
     (if startsWith (c # cs) r then 0
      else (let i = literalSearch cs r in if i < 0 then -1 else i + 1))"

definition exampleEnv :: env where
  "exampleEnv = \<lparr>
     search = literalSearch,
     EXTERNAL_URL = (\<lambda>h. startsWith h ''http://'' \<or> startsWith h ''https://'' \<or> startsWith h ''//''),
     OLD_POLYMER = ''Polymer 0.5 elements are not supported.'',
     urlToPath = (\<lambda>h. case h of None \<Rightarrow> ''undefined'' | Some s \<Rightarrow> s),
     acid = (\<lambda>doc h d. Inr d),
     resolvePaths = (\<lambda>doc importHref importerHref d. Inr d),
     urlResolve = (\<lambda>base src. case base of None \<Rightarrow> Inl TypeError | Some b \<Rightarrow> Inr src),
     encodeString = (\<lambda>s. s),
     request = (\<lambda>uri. if uri = ''x.js'' then Inr (Some ''console.log(1)'') else Inr None),
     getDependencies = (\<lambda>u. if u = ''vendor/lib.html'' then Inr [''vendor/dep.html''] else Inr []),
     metadataTree = (\<lambda>target. Inl (Rejection ''not found'')),
     serialize = (\<lambda>d doc. []),
     inlineCss = (\<lambda>doc h d. Inr d)\<rparr>"

definition exampleVulcan :: vulcan where
  "exampleVulcan = \<lparr>implicitStrip = False, abspath = None, addedImports = [],
     excludes = [''vendor/''], stripExcludes = [''strip/''], stripComments = True,
     enableCssInlining = False, enableScriptInlining = True, inputUrl = []\<rparr>"

definition exampleDom :: dom where
  "exampleDom =
    [mkDocument [1],
     mkElement ''html'' [] [2, 5] 0,
     mkElement ''head'' [] [3, 4] 1,
     mkElement ''link'' [(''rel'', ''import''), (''href'', ''vendor/lib.html'')] [] 2,
     mkText [CHR 0x0A] 2,
     mkElement ''body'' [] [6, 7, 8] 1,
     mkElement ''link'' [(''rel'', ''import''), (''href'', ''a.html'')] [] 5,
     mkText [CHR 0x0A, CHR 0xA0, CHR '' ''] 5,
     mkElement ''p'' [] [] 5]"

text \<open>
  A document whose one import is to be elided, with the empty document the edge names
  (node 7); the blank text after the link holds a no-break space. \<open>strippedFlat\<close> is the
  document after \<^verbatim>\<open>flatten\<close>: link and blank text are detached, and so is the
  relocation target, which stayed empty.
\<close>

definition strippedDom :: dom where
  "strippedDom =
    [mkDocument [1],
     mkElement ''html'' [] [2, 3] 0,
     mkElement ''head'' [] [] 1,
     mkElement ''body'' [] [4, 5, 6] 1,
     mkElement ''link'' [(''rel'', ''import''), (''href'', ''strip/me.html'')] [] 3,
     mkText [CHR 0x0A, CHR 0xA0, CHR '' ''] 3,
     mkElement ''p'' [] [] 3,
     mkDocument []]"

definition strippedFlat :: dom where
  "strippedFlat =
    [mkDocument [1],
     mkElement ''html'' [] [2, 3] 0,
     mkElement ''head'' [] [] 1,
     mkElement ''body'' [] [6] 1,
     (mkElement ''link'' [(''rel'', ''import''), (''href'', ''strip/me.html'')] [] 3)\<lparr>parentNode := None\<rparr>,
     (mkText [CHR 0x0A, CHR 0xA0, CHR '' ''] 3)\<lparr>parentNode := None\<rparr>,
     mkElement ''p'' [] [] 3,
     mkDocument [],
     hiddenDiv]"

definition oldPolymerDom :: dom where
  "oldPolymerDom =
    [mkDocument [1],
     mkElement ''html'' [] [2, 3] 0,
     mkElement ''head'' [] [] 1,
     mkElement ''body'' [] [4] 1,
     mkElement ''polymer-element'' [(''name'', ''x-foo'')] [] 3]"

text \<open>A main document whose only import is a document with a \<^verbatim>\<open>polymer-element\<close>.\<close>

definition nestedOldDom :: dom where
  "nestedOldDom =
    [mkDocument [1],
     mkElement ''html'' [] [2, 3] 0,
     mkElement ''head'' [] [4] 1,
     mkElement ''body'' [] [] 1,
     mkElement ''link'' [(''rel'', ''import''), (''href'', ''old.html'')] [] 2,
     mkDocument [6],
     mkElement ''html'' [] [7, 8] 5,
     mkElement ''head'' [] [] 6,
     mkElement ''body'' [] [9] 6,
     mkElement ''polymer-element'' [(''name'', ''x-foo'')] [] 8]"

definition scriptsDom :: dom where
  "scriptsDom =
    [mkDocument [1],
     mkElement ''html'' [] [2, 3] 0,
     mkElement ''head'' [] [] 1,
     mkElement ''body'' [] [4, 5, 6] 1,
     mkElement ''script'' [(''src'', ''x.js'')] [] 3,
     mkElement ''script'' [(''src'', ''vendor/v.js'')] [] 3,
     mkElement ''script'' [(''src'', ''empty.js'')] [] 3]"

definition metaDom :: dom where
  "metaDom =
    [mkDocument [1],
     mkElement ''html'' [] [2, 3] 0,
     mkElement ''head'' [] [4] 1,
     mkElement ''body'' [] [] 1,
     mkElement ''title'' [] [] 2]"

definition flatMetaDom :: dom where
  "flatMetaDom = metaDom @ [(newElement ''div'')\<lparr>attrs := [(''hidden'', []), (''by-vulcanize'', [])]\<rparr>]"

definition placeDom :: dom where
  "placeDom =
    [mkDocument [1],
     mkElement ''html'' [] [2, 3] 0,
     mkElement ''head'' [] [] 1,
     mkElement ''body'' [] [4, 5, 6] 1,
     mkElement ''div'' [(''hidden'', []), (''by-vulcanize'', [])] [] 3,
     mkElement ''link'' [(''rel'', ''import''), (''href'', ''a.html'')] [] 3,
     mkText [CHR 0x0A] 3,
     newDocumentFragment\<lparr>childNodes := [8, 9]\<rparr>,
     mkElement ''script'' [] [] 7,
     mkElement ''p'' [] [] 7]"




text \<open>
  An import site that stands in the relocation target (node 4). Then two documents, each
  with the document it imports behind it in the store: in \<open>plainDom\<close> the import site is
  a child of the body, in \<open>wrappedDom\<close> it stands in a hidden container the document
  brings along. \<open>plainFlat\<close> and \<open>wrappedFlat\<close> are the two after \<^verbatim>\<open>flatten\<close>.
\<close>

definition placeInsideDom :: dom where
  "placeInsideDom =
    [mkDocument [1],
     mkElement ''html'' [] [2, 3] 0,
     mkElement ''head'' [] [] 1,
     mkElement ''body'' [] [4, 6] 1,
     mkElement ''div'' [(''hidden'', []), (''by-vulcanize'', [])] [5] 3,
     mkElement ''link'' [(''rel'', ''import''), (''href'', ''a.html'')] [] 4,
     mkElement ''p'' [] [] 3,
     newDocumentFragment\<lparr>childNodes := [8, 9]\<rparr>,
     mkElement ''script'' [] [] 7,
     mkElement ''p'' [] [] 7]"

definition plainDom :: dom where
  "plainDom =
    [mkDocument [1],
     mkElement ''html'' [] [2, 3] 0,
     mkElement ''head'' [] [] 1,
     mkElement ''body'' [] [4] 1,
     mkElement ''link'' [(''rel'', ''import''), (''href'', ''a.html'')] [] 3,
     mkDocument [6],
     mkElement ''html'' [] [7, 8] 5,
     mkElement ''head'' [] [] 6,
     mkElement ''body'' [] [9] 6,
     mkElement ''p'' [] [] 8]"

definition plainFlat :: dom where
  "plainFlat =
    [mkDocument [1],
     mkElement ''html'' [] [2, 3] 0,
     mkElement ''head'' [] [] 1,
     mkElement ''body'' [] [13] 1,
     (mkElement ''link'' [(''rel'', ''import''), (''href'', ''a.html'')] [] 3)\<lparr>parentNode := None\<rparr>,
     mkDocument [6],
     mkElement ''html'' [] [7, 8] 5,
     mkElement ''head'' [] [] 6,
     mkElement ''body'' [] [9] 6,
     mkElement ''p'' [] [] 13,
     hiddenDiv,
     newDocumentFragment,
     newDocumentFragment,
     hiddenDiv\<lparr>childNodes := [9], parentNode := Some 3\<rparr>]"

definition wrappedDom :: dom where
  "wrappedDom =
    [mkDocument [1],
     mkElement ''html'' [] [2, 3] 0,
     mkElement ''head'' [] [] 1,
     mkElement ''body'' [] [4] 1,
     mkElement ''div'' [(''hidden'', []), (''by-vulcanize'', [])] [5] 3,
     mkElement ''link'' [(''rel'', ''import''), (''href'', ''a.html'')] [] 4,
     mkDocument [7],
     mkElement ''html'' [] [8, 9] 6,
     mkElement ''head'' [] [] 7,
     mkElement ''body'' [] [10] 7,
     mkElement ''p'' [] [] 9]"

definition wrappedFlat :: dom where
  "wrappedFlat =
    [mkDocument [1],
     mkElement ''html'' [] [2, 3] 0,
     mkElement ''head'' [] [] 1,
     mkElement ''body'' [] [4] 1,
     mkElement ''div'' [(''hidden'', []), (''by-vulcanize'', [])] [14] 3,
     (mkElement ''link'' [(''rel'', ''import''), (''href'', ''a.html'')] [] 4)\<lparr>parentNode := None\<rparr>,
     mkDocument [7],
     mkElement ''html'' [] [8, 9] 6,
     mkElement ''head'' [] [] 7,
     mkElement ''body'' [] [10] 7,
     mkElement ''p'' [] [] 14,
     hiddenDiv,
     newDocumentFragment,
     newDocumentFragment,
     hiddenDiv\<lparr>childNodes := [10], parentNode := Some 4\<rparr>]"

definition commentsDom :: dom where
  "commentsDom =
    [mkDocument [1],
     mkElement ''html'' [] [2, 5] 0,
     mkElement ''head'' [] [3, 4] 1,
     mkComment '' @license MIT '' 2,
     mkElement ''title'' [] [] 2,
     mkElement ''body'' [] [6, 7, 8, 9] 1,
     mkComment '' note '' 5,
     mkComment '' @license MIT '' 5,
     mkComment '' note '' 5,
     mkComment '' @license BSD '' 5]"

section \<open>Auxiliary facts\<close>

subsection \<open>Sequencing and the loop over the imports\<close>

lemma bind_Inl [simp]: "bind (Inl e) f = Inl e"
  by (simp add: bind_def)

lemma bind_Inr [simp]: "bind (Inr x) f = f x"
  by (simp add: bind_def)

lemma bind_assoc: "bind (bind r f) g = bind r (\<lambda>x. bind (f x) g)"
  by (cases r) simp_all

lemma bind_Inr_right [simp]: "bind r Inr = r"
  by (cases r) simp_all

lemma flattenImports_Nil_fun [simp]: "flattenImports E M v b mt th sites [] i = Inr"
  by (rule ext) simp

lemma flattenImports_Cons:
  "flattenImports E M v b mt th sites (im # ims) i d =
     bind (flattenImports E M v b mt th sites [im] i d)
       (\<lambda>d'. flattenImports E M v b mt th sites ims (Suc i) d')"
  by (simp add: Let_def)

lemma flattenImports_append:
  "flattenImports E M v b mt th sites (xs @ ys) i d =
     bind (flattenImports E M v b mt th sites xs i d)
       (\<lambda>d'. flattenImports E M v b mt th sites ys (i + length xs) d')"
proof (induction xs arbitrary: i d)
  case Nil
  then show ?case by simp
next
  case (Cons x xs)
  have "flattenImports E M v b mt th sites ((x # xs) @ ys) i d =
      bind (flattenImports E M v b mt th sites [x] i d)
        (\<lambda>d'. flattenImports E M v b mt th sites (xs @ ys) (Suc i) d')"
    by (simp only: append_Cons flattenImports_Cons [of _ _ _ _ _ _ _ x "xs @ ys"])
  also have "\<dots> = bind (flattenImports E M v b mt th sites [x] i d)
        (\<lambda>d'. bind (flattenImports E M v b mt th sites xs (Suc i) d')
           (\<lambda>d''. flattenImports E M v b mt th sites ys (Suc i + length xs) d''))"
    by (simp only: Cons.IH)
  also have "\<dots> = bind (flattenImports E M v b mt th sites (x # xs) i d)
        (\<lambda>d'. flattenImports E M v b mt th sites ys (i + length (x # xs)) d')"
    by (simp only: flattenImports_Cons [of _ _ _ _ _ _ _ x xs] bind_assoc) simp
  finally show ?case .
qed

lemma isDuplicateImport_iff: "isDuplicateImport im = (href im = None \<or> href im = Some [])"
  by (auto simp: isDuplicateImport_def truthy_def split: option.splits)

lemma step_elide:
  assumes "isDuplicateImport im \<or> isStrippedImport E v im = Inr True"
  shows "flattenImports E M v b mt th sites (im # ims) i d =
     bind (removeElementAndNewline (at sites (int i)) None d)
       (\<lambda>d'. flattenImports E M v b mt th sites ims (Suc i) d')"
  using assms by (auto simp: Let_def)




subsection \<open>Arrays\<close>

lemma indexOf_mem: "x \<in> set xs \<Longrightarrow> 0 \<le> indexOf xs x \<and> indexOf xs x < int (length xs) \<and> xs ! nat (indexOf xs x) = x"
  by (induction xs) (auto simp: Let_def nat_add_distrib)

lemma take_drop_indexOf:
  "x \<in> set xs \<Longrightarrow> take (nat (indexOf xs x)) xs @ drop (Suc (nat (indexOf xs x))) xs = remove1 x xs"
proof (induction xs)
  case Nil
  then show ?case by simp
next
  case (Cons y ys)
  show ?case
  proof (cases "y = x")
    case True
    then show ?thesis by simp
  next
    case False
    with Cons.prems have mem: "x \<in> set ys" by simp
    from indexOf_mem [OF mem] have "0 \<le> indexOf ys x" by simp
    then have "nat (indexOf ys x + 1) = Suc (nat (indexOf ys x))" by simp
    with False mem Cons.IH show ?thesis
      using indexOf_mem [OF mem] by (simp add: Let_def)
  qed
qed

lemma splice_remove1: "x \<in> set xs \<Longrightarrow> arraySplice (indexOf xs x) (Suc 0) [] xs = remove1 x xs"
  using indexOf_mem [of x xs] take_drop_indexOf [of x xs]
  by (simp add: arraySplice_def Let_def min_def)

subsection \<open>Removing a node\<close>

lemma nth_upd: "(d[i := x]) ! j = (if i = j \<and> i < length d then x else d ! j)"
  by (cases "i < length d") (auto simp: nth_list_update list_update_beyond)

lemma length_remove [simp]: "length (remove n d) = length d"
  by (simp add: remove_def Let_def split: option.splits)

lemma childNodes_remove:
  assumes "parentNode (d ! n) = Some p" "p < length d" "n \<in> set (childNodes (d ! p))"
  shows "childNodes (remove n d ! m) = (if m = p then remove1 n (childNodes (d ! p)) else childNodes (d ! m))"
  using assms by (simp add: remove_def Let_def splice_remove1 nth_upd)

lemma parentNode_remove:
  "n < length d \<Longrightarrow> parentNode (remove n d ! m) = (if m = n then None else parentNode (d ! m))"
  by (simp add: remove_def Let_def nth_upd split: option.splits)

lemma remove_fields:
  "nodeName (remove n d ! m) = nodeName (d ! m)"
  "tagName (remove n d ! m) = tagName (d ! m)"
  "attrs (remove n d ! m) = attrs (d ! m)"
  "nodeValue (remove n d ! m) = nodeValue (d ! m)"
  by (simp_all add: remove_def Let_def nth_upd split: option.splits)

lemma at_mem: "at xs i = Some x \<Longrightarrow> x \<in> set xs"
  by (auto simp: at_def split: if_splits)

lemma remove1_filter_distinct: "distinct xs \<Longrightarrow> remove1 x xs = filter (\<lambda>c. c \<noteq> x) xs"
  by (simp add: distinct_remove1_removeAll removeAll_filter_not_eq) (metis (mono_tags, lifting) filter_cong)

lemma at_indexOf_succ_neq:
  assumes "distinct xs" "x \<in> set xs" "at xs (indexOf xs x + 1) = Some y"
  shows "y \<noteq> x"
proof
  assume "y = x"
  from indexOf_mem [OF assms(2)] have i: "0 \<le> indexOf xs x" "indexOf xs x < int (length xs)"
    "xs ! nat (indexOf xs x) = x" by simp_all
  from assms(3) have j: "indexOf xs x + 1 < int (length xs)" "xs ! nat (indexOf xs x + 1) = y"
    by (auto simp: at_def split: if_splits)
  from i j \<open>y = x\<close> have "xs ! nat (indexOf xs x) = xs ! nat (indexOf xs x + 1)" by simp
  moreover have "nat (indexOf xs x) < length xs" "nat (indexOf xs x + 1) < length xs"
    using i j by auto
  ultimately have "nat (indexOf xs x) = nat (indexOf xs x + 1)"
    using assms(1) by (simp add: nth_eq_iff_index_eq)
  with i show False by simp
qed

lemma removeElementAndNewline_effect:
  assumes att: "attached d p n"
    and dist: "distinct (childNodes (d ! p))"
    and nxt: "\<And>x. nextSibling d p n = Some x \<Longrightarrow> isBlankTextNode d (Some x) \<Longrightarrow> attached d p x"
  shows "\<exists>d'. removeElementAndNewline (Some n) None d = Inr d'
      \<and> length d' = length d
      \<and> childNodes (d' ! p) =
          filter (\<lambda>c. c \<noteq> n \<and> \<not> (nextSibling d p n = Some c \<and> isBlankTextNode d (Some c)))
            (childNodes (d ! p))
      \<and> parentNode (d' ! n) = None
      \<and> (\<forall>m. m \<noteq> p \<longrightarrow> childNodes (d' ! m) = childNodes (d ! m))"
proof (cases "isBlankTextNode d (nextSibling d p n)")
  case False
  then have nb: "\<And>c. \<not> (nextSibling d p n = Some c \<and> isBlankTextNode d (Some c))" by auto
  from att have r: "removeElementAndNewline (Some n) None d = Inr (remove n d)"
    using False by (simp add: removeElementAndNewline_def attached_def nextSibling_def Let_def)
  from att dist show ?thesis
    unfolding r
    by (simp add: nb childNodes_remove parentNode_remove attached_def remove1_filter_distinct)
next
  case True
  then obtain x where x: "nextSibling d p n = Some x" and bx: "isBlankTextNode d (Some x)"
    by (cases "nextSibling d p n") (auto simp: isBlankTextNode_def)
  from nxt [OF x bx] have ax: "attached d p x" .
  from att have nmem: "n \<in> set (childNodes (d ! p))" by (simp add: attached_def)
  from x have xn: "x \<noteq> n"
    using at_indexOf_succ_neq [OF dist nmem] by (simp add: nextSibling_def)
  let ?d1 = "remove x d"
  from att True x have r: "removeElementAndNewline (Some n) None d = Inr (remove n ?d1)"
    by (simp add: removeElementAndNewline_def attached_def nextSibling_def Let_def)
  have c1: "childNodes (?d1 ! p) = remove1 x (childNodes (d ! p))"
    using ax by (simp add: childNodes_remove attached_def)
  have p1: "parentNode (?d1 ! n) = Some p"
    using ax att xn by (simp add: parentNode_remove attached_def)
  have m1: "n \<in> set (childNodes (?d1 ! p))"
    using nmem xn by (simp add: c1)
  have only: "\<And>c. (nextSibling d p n = Some c \<and> isBlankTextNode d (Some c)) = (c = x)"
    using x bx by auto
  have "childNodes (remove n ?d1 ! p) = remove1 n (remove1 x (childNodes (d ! p)))"
    using p1 m1 att by (simp add: childNodes_remove [where p = p] c1 attached_def)
  also have "\<dots> = filter (\<lambda>c. c \<noteq> n \<and> c \<noteq> x) (childNodes (d ! p))"
    using dist by (simp add: remove1_filter_distinct conj_commute)
  finally have cn: "childNodes (remove n ?d1 ! p) = filter (\<lambda>c. c \<noteq> n \<and> c \<noteq> x) (childNodes (d ! p))" .
  have other: "\<forall>m. m \<noteq> p \<longrightarrow> childNodes (remove n ?d1 ! m) = childNodes (d ! m)"
    using p1 m1 att ax by (simp add: childNodes_remove [where p = p] attached_def)
  have pn: "parentNode (remove n ?d1 ! n) = None"
    using att by (simp add: parentNode_remove attached_def)
  show ?thesis
    unfolding r using cn other pn by (simp add: only)
qed

subsection \<open>The legacy check\<close>

lemmas example_defs = exampleDom_def mkElement_def mkText_def mkDocument_def mkComment_def
  exampleEnv_def exampleVulcan_def exampleMatchers_def

lemma flattenStart_old:
  assumes "query d doc (head M) = Inr headNode" "query d doc (body M) = Inr bodyNode"
    "hasOldPolymer M d doc = Inr True"
  shows "flattenStart E M (Tree h doc sites ims) isMainDoc d =
     Inl (Error (OLD_POLYMER E @ '' File: '' @ urlToPath E h))"
  using assms by (simp add: flattenStart_def Let_def)

lemma oldPolymerDom_head: "query oldPolymerDom 0 (head exampleMatchers) = Inr (Some 2)"
  by (simp add: query_def oldPolymerDom_def example_defs isElement_def hasTagName_def toLowerCase_def)

lemma oldPolymerDom_body: "query oldPolymerDom 0 (body exampleMatchers) = Inr (Some 3)"
  by (simp add: query_def oldPolymerDom_def example_defs isElement_def hasTagName_def toLowerCase_def)

lemma oldPolymerDom_old: "hasOldPolymer exampleMatchers oldPolymerDom 0 = Inr True"
  by (simp add: hasOldPolymer_def query_def oldPolymerDom_def example_defs isElement_def hasTagName_def toLowerCase_def)

lemmas nestedOldDom_defs = nestedOldDom_def example_defs newDocumentFragment_def isElement_def
  hasTagName_def toLowerCase_def

lemma nestedOldDom_head:
  "query (nestedOldDom @ [newDocumentFragment]) 5 (head exampleMatchers) = Inr (Some 7)"
  by (simp add: query_def nestedOldDom_defs)

lemma nestedOldDom_body:
  "query (nestedOldDom @ [newDocumentFragment]) 5 (body exampleMatchers) = Inr (Some 8)"
  by (simp add: query_def nestedOldDom_defs)

lemma nestedOldDom_old:
  "hasOldPolymer exampleMatchers (nestedOldDom @ [newDocumentFragment]) 5 = Inr True"
  by (simp add: hasOldPolymer_def query_def nestedOldDom_defs)

lemma nestedOldDom_site: "isTemplated nestedOldDom (at [4] (int 0)) = Inr False"
  by (simp add: isTemplated_def at_def nestedOldDom_defs isDocumentFragment_def)

lemma nestedOldDom_policy:
  "\<not> isDuplicateImport (Tree (Some ''old.html'') 5 [] [])"
  "isStrippedImport exampleEnv exampleVulcan (Tree (Some ''old.html'') 5 [] []) = Inr False"
  "isExcludedImport exampleEnv exampleVulcan (Tree (Some ''old.html'') 5 [] []) = Inr False"
  by (simp_all add: isDuplicateImport_def isStrippedImport_def isExcludedImport_def
      isExcludedHref_def example_defs truthy_def)

subsection \<open>Inlining scripts\<close>

lemma scriptRequests_ok:
  assumes "\<forall>s\<in>set scripts. \<exists>src uri. getAttribute (d ! s) ''src'' = Some src \<and> urlResolve E bh src = Inr uri"
  shows "\<exists>rs. scriptRequests E v bh d scripts = Inr rs \<and> map fst rs = scripts
      \<and> (\<forall>(s, u)\<in>set rs. \<exists>src uri. getAttribute (d ! s) ''src'' = Some src
            \<and> urlResolve E bh src = Inr uri
            \<and> u = (if isExcludedHref E v src then None else Some uri))"
  using assms
proof (induction scripts)
  case Nil
  then show ?case by simp
next
  case (Cons s scripts)
  then obtain rs where rs: "scriptRequests E v bh d scripts = Inr rs" "map fst rs = scripts"
      "\<forall>(s, u)\<in>set rs. \<exists>src uri. getAttribute (d ! s) ''src'' = Some src
            \<and> urlResolve E bh src = Inr uri
            \<and> u = (if isExcludedHref E v src then None else Some uri)"
    by auto
  from Cons.prems obtain src uri where s: "getAttribute (d ! s) ''src'' = Some src"
      "urlResolve E bh src = Inr uri" by auto
  show ?case using rs s by auto
qed

lemma length_removeAttribute [simp]: "length (removeAttribute n a d) = length d"
  by (simp add: removeAttribute_def)

lemma inline_step:
  fixes t :: string
  assumes "s < length d" "\<not> isTextNode (d ! s)" "\<not> isCommentNode (d ! s)"
    and "d1 = setTextContent s t (removeAttribute s ''src'' d)"
  shows "length d1 = Suc (length d)"
    and "\<And>m. m < length d \<Longrightarrow> m \<noteq> s \<Longrightarrow> d1 ! m = d ! m"
    and "attrs (d1 ! s) = removeFirstAttr ''src'' (attrs (d ! s))"
    and "nodeName (d1 ! s) = nodeName (d ! s)"
    and "childNodes (d1 ! s) = [length d]"
    and "d1 ! length d = (newTextNode t)\<lparr>parentNode := Some s\<rparr>"
  using assms
  by (simp_all add: setTextContent_def removeAttribute_def alloc_def Let_def nth_upd nth_append
      isTextNode_def isCommentNode_def)

lemma scriptResponses_effect:
  assumes "distinct (map fst rs)"
    and "\<forall>(s, u)\<in>set rs. s < length d \<and> \<not> isTextNode (d ! s) \<and> \<not> isCommentNode (d ! s)"
    and "\<forall>(s, u)\<in>set rs. \<forall>uri. u = Some uri \<longrightarrow> (\<exists>c. request E uri = Inr c)"
  shows "\<exists>d'. scriptResponses E rs d = Inr d' \<and> length d \<le> length d'
      \<and> (\<forall>m<length d. m \<notin> fst ` set rs \<longrightarrow> d' ! m = d ! m)
      \<and> (\<forall>(s, u)\<in>set rs. settled E (d ! s) d' s u)"
  using assms
proof (induction rs arbitrary: d)
  case Nil
  then show ?case by simp
next
  case (Cons r rs)
  obtain s u where r: "r = (s, u)" by (cases r)
  from Cons.prems(2) r have sd: "s < length d" "\<not> isTextNode (d ! s)" "\<not> isCommentNode (d ! s)"
    by simp_all
  from Cons.prems(1) r have snot: "s \<notin> fst ` set rs" and dist: "distinct (map fst rs)"
    by simp_all
  from Cons.prems(2) have p2: "\<forall>(s, u)\<in>set rs. s < length d \<and> \<not> isTextNode (d ! s) \<and> \<not> isCommentNode (d ! s)"
    by simp
  from Cons.prems(3) have p3: "\<forall>(s, u)\<in>set rs. \<forall>uri. u = Some uri \<longrightarrow> (\<exists>c. request E uri = Inr c)"
    by simp
  have keep: "\<exists>d'. scriptResponses E (r # rs) d = Inr d' \<and> length d \<le> length d'
      \<and> (\<forall>m<length d. m \<notin> fst ` set (r # rs) \<longrightarrow> d' ! m = d ! m)
      \<and> (\<forall>(s, u)\<in>set (r # rs). settled E (d ! s) d' s u)"
    if same: "scriptResponses E (r # rs) d = scriptResponses E rs d"
      and triv: "\<And>d'. d' ! s = d ! s \<Longrightarrow> settled E (d ! s) d' s u"
  proof -
    from Cons.IH [OF dist p2 p3]
    obtain d' where d': "scriptResponses E rs d = Inr d'" "length d \<le> length d'"
      "\<forall>m<length d. m \<notin> fst ` set rs \<longrightarrow> d' ! m = d ! m"
      "\<forall>(s, u)\<in>set rs. settled E (d ! s) d' s u" by blast
    from d'(3) sd(1) snot have "d' ! s = d ! s" by simp
    then have "settled E (d ! s) d' s u" by (rule triv)
    with d'(4) r have all: "\<forall>(s, u)\<in>set (r # rs). settled E (d ! s) d' s u" by simp
    from d'(3) have fr: "\<forall>m<length d. m \<notin> fst ` set (r # rs) \<longrightarrow> d' ! m = d ! m" by simp
    from same d'(1) have "scriptResponses E (r # rs) d = Inr d'" by simp
    with d'(2) fr all show ?thesis by blast
  qed
  show ?case
  proof (cases u)
    case None
    show ?thesis
      by (rule keep) (simp_all add: r None settled_def)
  next
    case (Some uri)
    with Cons.prems(3) r obtain c where c: "request E uri = Inr c" by auto
    show ?thesis
    proof (cases "truthy c")
      case False
      show ?thesis
        by (rule keep) (simp_all add: r Some c False settled_def)
    next
      case True
      define d1 where "d1 = setTextContent s (encodeString E (the c)) (removeAttribute s ''src'' d)"
      note st = inline_step [OF sd d1_def]
      have same: "d1 ! m = d ! m" if "m \<in> fst ` set rs" for m
      proof -
        from that obtain b where "(m, b) \<in> set rs" by force
        with p2 have "m < length d" by fastforce
        moreover from that snot have "m \<noteq> s" by blast
        ultimately show ?thesis by (rule st(2))
      qed
      have q2: "\<forall>(s, u)\<in>set rs. s < length d1 \<and> \<not> isTextNode (d1 ! s) \<and> \<not> isCommentNode (d1 ! s)"
      proof clarify
        fix a b assume ab: "(a, b) \<in> set rs"
        then have "a \<in> fst ` set rs" by force
        then have "d1 ! a = d ! a" by (rule same)
        moreover from ab p2 have "a < length d \<and> \<not> isTextNode (d ! a) \<and> \<not> isCommentNode (d ! a)"
          by fastforce
        ultimately show "a < length d1 \<and> \<not> isTextNode (d1 ! a) \<and> \<not> isCommentNode (d1 ! a)"
          using st(1) by simp
      qed
      from Cons.IH [OF dist q2 p3]
      obtain d' where d': "scriptResponses E rs d1 = Inr d'" "length d1 \<le> length d'"
        "\<forall>m<length d1. m \<notin> fst ` set rs \<longrightarrow> d' ! m = d1 ! m"
        "\<forall>(s, u)\<in>set rs. settled E (d1 ! s) d' s u" by blast
      have run: "scriptResponses E (r # rs) d = Inr d'"
        using r Some c True d'(1) by (simp add: d1_def)
      have tnot: "length d \<notin> fst ` set rs"
      proof
        assume "length d \<in> fst ` set rs"
        then obtain b where "(length d, b) \<in> set rs" by force
        with p2 show False by fastforce
      qed
      have s': "d' ! s = d1 ! s" using d'(3) sd(1) snot st(1) by simp
      have t': "d' ! length d = d1 ! length d" using d'(3) tnot st(1) by simp
      have "childNodes (d' ! s) = [length d] \<and> length d < length d' \<and> isTextNode (d' ! length d)
             \<and> nodeValue (d' ! length d) = encodeString E (the c)
             \<and> parentNode (d' ! length d) = Some s"
        unfolding s' t' st(5) st(6) using d'(2) st(1)
        by (simp add: newTextNode_def isTextNode_def)
      then have "inlined E (d ! s) d' s (the c)"
        unfolding inlined_def s' st(3) st(4) by blast
      then have hd: "settled E (d ! s) d' s u"
        using Some c True by (simp add: settled_def)
      have tl: "\<forall>(s, u)\<in>set rs. settled E (d ! s) d' s u"
      proof clarify
        fix a b assume ab: "(a, b) \<in> set rs"
        then have "a \<in> fst ` set rs" by force
        then have "d1 ! a = d ! a" by (rule same)
        moreover from d'(4) ab have "settled E (d1 ! a) d' a b" by fastforce
        ultimately show "settled E (d ! a) d' a b" by simp
      qed
      have fr: "\<forall>m<length d. m \<notin> fst ` set (r # rs) \<longrightarrow> d' ! m = d ! m"
      proof (intro allI impI)
        fix m assume m: "m < length d" "m \<notin> fst ` set (r # rs)"
        with r have ms: "m \<noteq> s" "m \<notin> fst ` set rs" by auto
        from m(1) st(1) have "m < length d1" by simp
        with d'(3) ms(2) have "d' ! m = d1 ! m" by simp
        also from m(1) ms(1) have "d1 ! m = d ! m" by (rule st(2))
        finally show "d' ! m = d ! m" .
      qed
      from hd tl r have all: "\<forall>(s, u)\<in>set (r # rs). settled E (d ! s) d' s u" by simp
      from d'(2) st(1) have "length d \<le> length d'" by simp
      with run fr all show ?thesis by blast
    qed
  qed
qed

lemma scriptsDom_query: "queryAll scriptsDom 0 (JS_SRC exampleMatchers) = Inr [4, 5, 6]"
  by (simp add: queryAll_def scriptsDom_def example_defs isElement_def hasTagName_def hasAttr_def
      getAttribute_def toLowerCase_def)

subsection \<open>Putting a new node first in the head\<close>

lemma arraySplice_0: "arraySplice 0 0 [x] xs = x # xs"
  by (simp add: arraySplice_def)

lemma indexOf_hd: "xs \<noteq> [] \<Longrightarrow> indexOf xs (hd xs) = 0"
  by (cases xs) simp_all

lemma prepend_fresh:
  assumes h: "h < length d" and nd: "parentNode nd = None" "\<not> isDocumentFragment nd"
  shows "prepend (Some h) (length d) (d @ [nd]) = Inr (pushFirst h nd d)"
proof -
  let ?d = "d @ [nd]"
  have x: "?d ! length d = nd" by simp
  have hh: "?d ! h = d ! h" using h by (simp add: nth_append)
  have rm: "remove (length d) ?d = ?d"
    using nd(1) by (simp add: remove_def)
  have ins: "insertNode h 0 (length d) False ?d = pushFirst h nd d"
    using h nd
    by (simp add: insertNode_def Let_def rm x hh arraySplice_0 pushFirst_def list_update_append
        nth_append)
  show ?thesis
  proof (cases "childNodes (d ! h) = []")
    case True
    then show ?thesis
      using ins by (simp add: prepend_def hh append_def)
  next
    case False
    then show ?thesis
      using ins by (simp add: prepend_def hh insertBefore_def indexOf_hd)
  qed
qed

lemma addImports_Cons:
  assumes "h < length d"
  shows "addImports (Some h) (a # as) d = addImports (Some h) as (pushFirst h (linkNode a) d)"
proof -
  have "setAttribute (length d) ''href'' a
          (setAttribute (length d) ''rel'' ''import'' (d @ [newElement ''link'']))
        = d @ [linkNode a]"
    by (simp add: setAttribute_def linkNode_def newElement_def)
  moreover have "prepend (Some h) (length d) (d @ [linkNode a]) = Inr (pushFirst h (linkNode a) d)"
    by (rule prepend_fresh [OF assms]) (simp_all add: linkNode_def newElement_def isDocumentFragment_def)
  ultimately show ?thesis
    by (simp add: alloc_def Let_def)
qed

lemma ensureMeta_None:
  assumes "h < length d"
  shows "ensureMeta None (Some h) d = Inr (pushFirst h metaCharset d)"
proof -
  have "setAttribute (length d) ''charset'' ''UTF-8'' (d @ [newElement ''meta'']) = d @ [metaCharset]"
    by (simp add: setAttribute_def metaCharset_def newElement_def)
  moreover have "prepend (Some h) (length d) (d @ [metaCharset]) = Inr (pushFirst h metaCharset d)"
    by (rule prepend_fresh [OF assms]) (simp_all add: metaCharset_def newElement_def isDocumentFragment_def)
  ultimately show ?thesis
    by (simp add: ensureMeta_def alloc_def Let_def)
qed

lemma pushFirst_props:
  assumes "h < length d"
  shows "length (pushFirst h nd d) = Suc (length d)"
    and "pushFirst h nd d ! length d = nd\<lparr>parentNode := Some h\<rparr>"
    and "pushFirst h nd d ! h = (d ! h)\<lparr>childNodes := length d # childNodes (d ! h)\<rparr>"
    and "\<And>n. n < length d \<Longrightarrow> n \<noteq> h \<Longrightarrow> pushFirst h nd d ! n = d ! n"
  using assms by (simp_all add: pushFirst_def nth_append nth_upd)

lemma addImports_effect:
  assumes "h < length d"
  shows "\<exists>d'. addImports (Some h) as d = Inr d' \<and> linksAdded h as d d'"
  using assms
proof (induction as arbitrary: d)
  case Nil
  then show ?case by (simp add: linksAdded_def)
next
  case (Cons a as)
  let ?d1 = "pushFirst h (linkNode a) d"
  note p = pushFirst_props [OF Cons.prems, where nd = "linkNode a"]
  have h1: "h < length ?d1" using Cons.prems p(1) by simp
  from Cons.IH [OF h1] obtain d' where d': "addImports (Some h) as ?d1 = Inr d'"
    and l: "linksAdded h as ?d1 d'" by blast
  have run: "addImports (Some h) (a # as) d = Inr d'"
    using addImports_Cons [OF Cons.prems] d' by simp
  from l have len: "length d' = length d + length (a # as)"
    by (simp add: linksAdded_def p(1))
  have upt: "[length d..<length d + length (a # as)] = length d # [Suc (length d)..<Suc (length d) + length as]"
    using upt_conv_Cons [of "length d" "Suc (length d + length as)"] by simp
  from l have "d' ! h = (?d1 ! h)\<lparr>childNodes := rev [length ?d1..<length ?d1 + length as] @ childNodes (?d1 ! h)\<rparr>"
    by (simp add: linksAdded_def)
  then have ch: "d' ! h = (d ! h)\<lparr>childNodes := rev [length d..<length d + length (a # as)] @ childNodes (d ! h)\<rparr>"
    unfolding upt p(1) p(3) by simp
  from l have old: "\<forall>n<length ?d1. n \<noteq> h \<longrightarrow> d' ! n = ?d1 ! n"
    by (simp add: linksAdded_def)
  from l have new: "\<forall>i<length as. d' ! (length ?d1 + i) = (linkNode (as ! i))\<lparr>parentNode := Some h\<rparr>"
    by (simp add: linksAdded_def)
  have first: "d' ! length d = (linkNode a)\<lparr>parentNode := Some h\<rparr>"
  proof -
    have "length d < length ?d1" "length d \<noteq> h" using p(1) Cons.prems by simp_all
    with old have "d' ! length d = ?d1 ! length d" by blast
    with p(2) show ?thesis by simp
  qed
  have news: "\<forall>i<length (a # as). d' ! (length d + i) = (linkNode ((a # as) ! i))\<lparr>parentNode := Some h\<rparr>"
  proof (intro allI impI)
    fix i assume i: "i < length (a # as)"
    show "d' ! (length d + i) = (linkNode ((a # as) ! i))\<lparr>parentNode := Some h\<rparr>"
    proof (cases i)
      case 0
      with first show ?thesis by simp
    next
      case (Suc k)
      with i have "k < length as" by simp
      with new have "d' ! (length ?d1 + k) = (linkNode (as ! k))\<lparr>parentNode := Some h\<rparr>" by blast
      with Suc p(1) show ?thesis by simp
    qed
  qed
  have olds: "\<forall>n<length d. n \<noteq> h \<longrightarrow> d' ! n = d ! n"
  proof (intro allI impI)
    fix n assume n: "n < length d" "n \<noteq> h"
    then have "n < length ?d1" using p(1) by simp
    with old n(2) have "d' ! n = ?d1 ! n" by blast
    also have "\<dots> = d ! n" using n by (rule p(4))
    finally show "d' ! n = d ! n" .
  qed
  from len ch news olds have "linksAdded h (a # as) d d'"
    unfolding linksAdded_def by blast
  with run show ?case by blast
qed

lemma addImports_None: "addImports None as d = Inr d' \<Longrightarrow> as = [] \<and> d' = d"
  by (cases as) (simp_all add: prepend_def alloc_def Let_def)

lemma metaDom_flatten:
  "flatten exampleEnv exampleMatchers (exampleVulcan\<lparr>addedImports := [''extra.html'']\<rparr>)
      (Tree (Some ''index.html'') 0 [] []) True metaDom
    = Inr (metaDom @ [(newElement ''div'')\<lparr>attrs := [(''hidden'', []), (''by-vulcanize'', [])]\<rparr>])"
  by (simp add: flattenStart_def query_def queryAll_def hasOldPolymer_def fixFakeExternalScripts_def
      newMoveTarget_def flattenEnd_def prepend_def append_def insertNode_def remove_def
      setAttribute_def alloc_def arraySplice_def at_def moveToBodyMatcher_def metaDom_def
      example_defs newElement_def isElement_def hasTagName_def hasAttr_def getAttribute_def
      toLowerCase_def isDocumentFragment_def Let_def)

lemma flatMetaDom_meta: "query flatMetaDom 0 (meta exampleMatchers) = Inr None"
  by (simp add: flatMetaDom_def query_def metaDom_def example_defs newElement_def isElement_def
      hasTagName_def toLowerCase_def)

lemma flatMetaDom_head: "query flatMetaDom 0 (head exampleMatchers) = Inr (Some 2)"
  by (simp add: flatMetaDom_def query_def metaDom_def example_defs newElement_def isElement_def
      hasTagName_def toLowerCase_def)

lemma metaDom_stage:
  "\<exists>d2. flattenStage exampleEnv exampleMatchers (exampleVulcan\<lparr>addedImports := [''extra.html'']\<rparr>)
      (Tree (Some ''index.html'') 0 [] []) metaDom = Inr d2"
proof -
  have h: "2 < length flatMetaDom" by (simp add: flatMetaDom_def metaDom_def)
  from addImports_effect [OF h, of "[''extra.html'']"]
  obtain d' where a: "addImports (Some 2) [''extra.html''] flatMetaDom = Inr d'"
    and l: "linksAdded 2 [''extra.html''] flatMetaDom d'" by blast
  from l h have "2 < length d'" by (simp add: linksAdded_def)
  from ensureMeta_None [OF this] a show ?thesis
    by (simp add: flattenStage_def metaDom_flatten [folded flatMetaDom_def] flatMetaDom_meta
        flatMetaDom_head del: flatten.simps)
qed

subsection \<open>Inserting and replacing\<close>

lemma length_setParents [simp]: "length (setParents q cs d) = length d"
  by (induction cs arbitrary: d) simp_all

lemma setParents_nth:
  "setParents q cs d ! m =
     (if m \<in> set cs \<and> m < length d then (d ! m)\<lparr>parentNode := q\<rparr> else d ! m)"
proof (induction cs arbitrary: d)
  case Nil
  then show ?case by simp
next
  case (Cons c cs)
  show ?case
    by (simp add: Cons.IH nth_upd) 
qed

lemma remove_detached: "parentNode (d ! x) = None \<Longrightarrow> remove x d = d"
proof -
  assume a: "parentNode (d ! x) = None"
  have "(d ! x)\<lparr>parentNode := parentNode (d ! x)\<rparr> = d ! x" by simp
  then have e: "(d ! x)\<lparr>parentNode := None\<rparr> = d ! x" unfolding a .
  show ?thesis
    unfolding remove_def Let_def a option.case e by (rule list_update_id)
qed

lemma length_insertNode [simp]: "length (insertNode p i x r d) = length d"
  by (simp add: insertNode_def Let_def split: option.splits)

lemma insertNode_detached:
  assumes "\<not> isDocumentFragment (d ! x)" "parentNode (d ! x) = None"
  shows "insertNode p i x r d =
     (let d2 = d[p := (d ! p)\<lparr>childNodes :=
                 arraySplice i (if r then 1 else 0) [x] (childNodes (d ! p))\<rparr>];
          d3 = d2[x := (d2 ! x)\<lparr>parentNode := Some p\<rparr>]
      in (case (if r then at (childNodes (d ! p)) i else None) of None \<Rightarrow> d3
          | Some rn \<Rightarrow> d3[rn := (d3 ! rn)\<lparr>parentNode := None\<rparr>]))"
  unfolding insertNode_def Let_def using assms
  by (cases r; cases "at (childNodes (d ! p)) i") (simp_all add: remove_detached)

lemma insertNode_fragment:
  assumes "isDocumentFragment (d ! x)"
  shows "insertNode p i x r d =
     (let d1 = d[x := (d ! x)\<lparr>childNodes := []\<rparr>];
          d2 = d1[p := (d1 ! p)\<lparr>childNodes :=
                 arraySplice i (if r then 1 else 0) (childNodes (d ! x)) (childNodes (d1 ! p))\<rparr>];
          d3 = setParents (Some p) (childNodes (d ! x)) d2
      in (case (if r then at (childNodes (d1 ! p)) i else None) of None \<Rightarrow> d3
          | Some rn \<Rightarrow> d3[rn := (d3 ! rn)\<lparr>parentNode := None\<rparr>]))"
  unfolding insertNode_def Let_def using assms
  by (cases r; cases "at (childNodes (d[x := (d ! x)\<lparr>childNodes := []\<rparr>] ! p)) i") simp_all

lemma insertNode_childNodes:
  assumes "p < length d" "x < length d" "p \<noteq> x"
    and "\<not> isDocumentFragment (d ! x) \<longrightarrow> parentNode (d ! x) = None"
  shows "childNodes (insertNode p i x r d ! m) =
     (if m = p then arraySplice i (if r then 1 else 0) (newNodesOf d x) (childNodes (d ! p))
      else if isDocumentFragment (d ! x) \<and> m = x then []
      else childNodes (d ! m))"
proof (cases "isDocumentFragment (d ! x)")
  case True
  show ?thesis
    unfolding insertNode_fragment [OF True] using True assms(1-3)
    by (cases r; cases "at (childNodes (d[x := (d ! x)\<lparr>childNodes := []\<rparr>] ! p)) i")
      (simp_all add: Let_def newNodesOf_def setParents_nth nth_upd)
next
  case False
  with assms(4) have pn: "parentNode (d ! x) = None" by simp
  show ?thesis
    unfolding insertNode_detached [OF False pn] using False assms(1-3)
    by (cases r; cases "at (childNodes (d ! p)) i")
      (simp_all add: Let_def newNodesOf_def nth_upd)
qed

lemma insertNode_parentNode:
  assumes "p < length d" "x < length d" "p \<noteq> x" "m < length d"
    and "\<not> isDocumentFragment (d ! x) \<longrightarrow> parentNode (d ! x) = None"
  shows "parentNode (insertNode p i x r d ! m) =
     (if r \<and> at (childNodes (d ! p)) i = Some m then None
      else if m \<in> set (newNodesOf d x) then Some p
      else parentNode (d ! m))"
proof (cases "isDocumentFragment (d ! x)")
  case True
  show ?thesis
    unfolding insertNode_fragment [OF True] using True assms(1-4)
    by (cases r; cases "at (childNodes (d ! p)) i")
      (auto simp: Let_def newNodesOf_def setParents_nth nth_upd)
next
  case False
  with assms(5) have pn: "parentNode (d ! x) = None" by simp
  show ?thesis
    unfolding insertNode_detached [OF False pn] using False assms(1-4) pn
    by (cases r; cases "at (childNodes (d ! p)) i")
      (auto simp: Let_def newNodesOf_def nth_upd)
qed

lemma insertNode_fields:
  assumes "\<not> isDocumentFragment (d ! x) \<longrightarrow> parentNode (d ! x) = None"
  shows "nodeName (insertNode p i x r d ! m) = nodeName (d ! m)
    \<and> tagName (insertNode p i x r d ! m) = tagName (d ! m)
    \<and> attrs (insertNode p i x r d ! m) = attrs (d ! m)
    \<and> nodeValue (insertNode p i x r d ! m) = nodeValue (d ! m)"
proof (cases "isDocumentFragment (d ! x)")
  case True
  show ?thesis
    unfolding insertNode_fragment [OF True]
    by (cases r; cases "at (childNodes (d[x := (d ! x)\<lparr>childNodes := []\<rparr>] ! p)) i")
      (auto simp: Let_def setParents_nth nth_upd)
next
  case False
  with assms have pn: "parentNode (d ! x) = None" by simp
  show ?thesis
    unfolding insertNode_detached [OF False pn]
    by (cases r; cases "at (childNodes (d ! p)) i")
      (simp_all add: Let_def nth_upd)
qed

lemma splice_replace:
  assumes "distinct cs" "n \<in> set cs"
  shows "arraySplice (indexOf cs n) (Suc 0) new cs = concat (map (\<lambda>c. if c = n then new else [c]) cs)"
  using assms
proof (induction cs)
  case Nil
  then show ?case by simp
next
  case (Cons y ys)
  show ?case
  proof (cases "y = n")
    case True
    with Cons.prems have "n \<notin> set ys" by simp
    then have "concat (map (\<lambda>c. if c = n then new else [c]) ys) = ys"
      by (induction ys) auto
    with True show ?thesis by (simp add: arraySplice_def)
  next
    case False
    with Cons.prems have mem: "n \<in> set ys" and d: "distinct ys" by simp_all
    from indexOf_mem [OF mem] have i: "0 \<le> indexOf ys n" "indexOf ys n < int (length ys)" by simp_all
    then have nat: "nat (indexOf ys n + 1) = Suc (nat (indexOf ys n))" by simp
    from Cons.IH [OF d mem] i have
      "take (nat (indexOf ys n)) ys @ new @ drop (Suc (nat (indexOf ys n))) ys
        = concat (map (\<lambda>c. if c = n then new else [c]) ys)"
      by (simp add: arraySplice_def Let_def min_def)
    with False i nat show ?thesis
      by (simp add: arraySplice_def Let_def min_def)
  qed
qed

lemma concat_map_filter_single:
  "concat (map (\<lambda>c. if c = n then new else [c]) (filter (\<lambda>c. c \<noteq> x) cs))
     = concat (map (\<lambda>c. if c = n then new else if c = x then [] else [c]) cs)"
  if "x \<noteq> n"
  using that by (induction cs) auto

lemma removeElementAndNewline_replace:
  assumes att: "attached d p n"
    and dist: "distinct (childNodes (d ! p))"
    and nxt: "\<forall>c. nextSibling d p n = Some c \<and> isBlankTextNode d (Some c) \<longrightarrow> attached d p c"
    and x: "x < length d" "x \<noteq> p" "x \<notin> set (childNodes (d ! p))"
    and det: "\<not> isDocumentFragment (d ! x) \<longrightarrow> parentNode (d ! x) = None"
  shows "\<exists>d'. removeElementAndNewline (Some n) (Some x) d = Inr d'
      \<and> length d' = length d
      \<and> childNodes (d' ! p) =
          concat (map (\<lambda>c. if c = n then newNodesOf d x
                           else if nextSibling d p n = Some c \<and> isBlankTextNode d (Some c) then []
                           else [c]) (childNodes (d ! p)))
      \<and> (\<forall>m. m \<noteq> p \<longrightarrow> childNodes (d' ! m) =
            (if isDocumentFragment (d ! x) \<and> m = x then [] else childNodes (d ! m)))
      \<and> (\<forall>m<length d. parentNode (d' ! m) =
            (if m = n then None
             else if m \<in> set (newNodesOf d x) then Some p
             else if nextSibling d p n = Some m \<and> isBlankTextNode d (Some m) then None
             else parentNode (d ! m)))
      \<and> (\<forall>m. nodeName (d' ! m) = nodeName (d ! m) \<and> attrs (d' ! m) = attrs (d ! m)
            \<and> tagName (d' ! m) = tagName (d ! m) \<and> nodeValue (d' ! m) = nodeValue (d ! m))"
proof -
  let ?cs = "childNodes (d ! p)"
  let ?bl = "\<lambda>c. nextSibling d p n = Some c \<and> isBlankTextNode d (Some c)"
  from att have n: "n < length d" and p: "p < length d" and pn: "parentNode (d ! n) = Some p"
    and nmem: "n \<in> set ?cs" by (simp_all add: attached_def)
  define d1 where "d1 = (if isBlankTextNode d (nextSibling d p n) then remove (the (nextSibling d p n)) d else d)"
  have d1: "length d1 = length d
      \<and> childNodes (d1 ! p) = filter (\<lambda>c. \<not> ?bl c) ?cs
      \<and> (\<forall>m. m \<noteq> p \<longrightarrow> childNodes (d1 ! m) = childNodes (d ! m))
      \<and> (\<forall>m<length d. parentNode (d1 ! m) = (if ?bl m then None else parentNode (d ! m)))
      \<and> (\<forall>m. nodeName (d1 ! m) = nodeName (d ! m) \<and> attrs (d1 ! m) = attrs (d ! m)
            \<and> tagName (d1 ! m) = tagName (d ! m) \<and> nodeValue (d1 ! m) = nodeValue (d ! m))"
  proof (cases "isBlankTextNode d (nextSibling d p n)")
    case False
    then have nb: "\<And>c. \<not> ?bl c" by auto
    from False have "d1 = d" by (simp add: d1_def)
    then show ?thesis by (simp add: nb)
  next
    case True
    then obtain c where c: "nextSibling d p n = Some c" and bc: "isBlankTextNode d (Some c)"
      by (cases "nextSibling d p n") (auto simp: isBlankTextNode_def)
    with nxt have ac: "attached d p c" by blast
    have only: "\<And>m. ?bl m = (m = c)" using c bc by auto
    from True c have e: "d1 = remove c d" by (simp add: d1_def)
    from ac have cc: "c < length d" "parentNode (d ! c) = Some p" "c \<in> set ?cs"
      by (simp_all add: attached_def)
    have f: "filter (\<lambda>m. m \<noteq> c) ?cs = remove1 c ?cs"
      using dist by (simp add: remove1_filter_distinct)
    show ?thesis
      unfolding e only using cc p
      by (simp add: childNodes_remove [where p = p] parentNode_remove remove_fields f)
  qed
  have xn: "\<And>c. ?bl c \<Longrightarrow> c \<noteq> n"
    using at_indexOf_succ_neq [OF dist nmem] by (auto simp: nextSibling_def)
  have xx: "\<not> ?bl x"
    using x(3) at_mem [of ?cs _ x] by (auto simp: nextSibling_def)
  have pn1: "parentNode (d1 ! n) = Some p" using d1 n pn xn by auto
  have nm1: "n \<in> set (childNodes (d1 ! p))" using d1 nmem xn by auto
  have dist1: "distinct (childNodes (d1 ! p))" using d1 dist by simp
  have fr1: "isDocumentFragment (d1 ! x) = isDocumentFragment (d ! x)"
    using d1 by (simp add: isDocumentFragment_def)
  have nn1: "newNodesOf d1 x = newNodesOf d x"
    using d1 x(2) fr1 by (simp add: newNodesOf_def)
  have px1: "\<not> isDocumentFragment (d1 ! x) \<longrightarrow> parentNode (d1 ! x) = None"
    using d1 x(1) xx det fr1 by simp
  have l1: "p < length d1" "x < length d1" using d1 p x(1) by simp_all
  have px: "p \<noteq> x" using x(2) by simp
  let ?i = "indexOf (childNodes (d1 ! p)) n"
  let ?d' = "insertNode p ?i x True d1"
  have "removeElementAndNewline (Some n) (Some x) d = replace n x d1"
    using pn by (simp add: removeElementAndNewline_def Let_def d1_def nextSibling_def)
  also have "\<dots> = Inr ?d'"
    using pn1 by (simp add: replace_def)
  finally have run: "removeElementAndNewline (Some n) (Some x) d = Inr ?d'" .
  have at1: "at (childNodes (d1 ! p)) ?i = Some n"
    using indexOf_mem [OF nm1] by (simp add: at_def)
  have c1: "childNodes (?d' ! p) =
      concat (map (\<lambda>c. if c = n then newNodesOf d x else if ?bl c then [] else [c]) ?cs)"
  proof -
    have "childNodes (?d' ! p) = arraySplice ?i (Suc 0) (newNodesOf d x) (childNodes (d1 ! p))"
      using insertNode_childNodes [OF l1 px px1, of ?i True p] nn1 by simp
    also have "\<dots> = concat (map (\<lambda>c. if c = n then newNodesOf d x else [c]) (childNodes (d1 ! p)))"
      by (rule splice_replace [OF dist1 nm1])
    also have "\<dots> = concat (map (\<lambda>c. if c = n then newNodesOf d x else if ?bl c then [] else [c]) ?cs)"
    proof (cases "isBlankTextNode d (nextSibling d p n)")
      case False
      then have nb: "\<And>c. ?bl c = False" by auto
      have "filter (\<lambda>c. \<not> ?bl c) ?cs = ?cs" unfolding nb by simp
      with d1 have "childNodes (d1 ! p) = ?cs" by simp
      then show ?thesis unfolding nb if_False by simp
    next
      case True
      then obtain c where c: "nextSibling d p n = Some c" and bc: "isBlankTextNode d (Some c)"
        by (cases "nextSibling d p n") (auto simp: isBlankTextNode_def)
      have only: "\<And>m. ?bl m = (m = c)" using c bc by auto
      from xn [of c] c bc have "c \<noteq> n" by simp
      from concat_map_filter_single [OF this, of "newNodesOf d x" ?cs] d1
      show ?thesis unfolding only by simp
    qed
    finally show ?thesis .
  qed
  have c2: "\<forall>m. m \<noteq> p \<longrightarrow> childNodes (?d' ! m) =
            (if isDocumentFragment (d ! x) \<and> m = x then [] else childNodes (d ! m))"
    using insertNode_childNodes [OF l1 px px1, of ?i True] fr1 d1 by simp
  have c3: "\<forall>m<length d. parentNode (?d' ! m) =
            (if m = n then None
             else if m \<in> set (newNodesOf d x) then Some p
             else if ?bl m then None
             else parentNode (d ! m))"
  proof (intro allI impI)
    fix m assume m: "m < length d"
    then have "m < length d1" using d1 by simp
    from insertNode_parentNode [OF l1 px this px1, of ?i True] at1 nn1 d1 m
    show "parentNode (?d' ! m) =
            (if m = n then None
             else if m \<in> set (newNodesOf d x) then Some p
             else if ?bl m then None
             else parentNode (d ! m))"
      by auto
  qed
  have c4: "\<forall>m. nodeName (?d' ! m) = nodeName (d ! m) \<and> attrs (?d' ! m) = attrs (d ! m)
            \<and> tagName (?d' ! m) = tagName (d ! m) \<and> nodeValue (?d' ! m) = nodeValue (d ! m)"
    using insertNode_fields [OF px1, of p ?i True] d1 by simp
  have c0: "length ?d' = length d" using d1 by simp
  from run c0 c1 c2 c3 c4 show ?thesis by blast
qed

lemma hide_unfold:
  "hide (Some n) d =
     bind (removeElementAndNewline (Some n) (Some (length d)) (d @ [hiddenDiv]))
       (\<lambda>d4. Inr (append (length d) n d4))"
  by (simp add: hide_def alloc_def Let_def setAttribute_def hiddenDiv_def newElement_def)

lemma attached_append: "attached d p n \<Longrightarrow> attached (d @ [nd]) p n"
  by (simp add: attached_def nth_append)

lemma nextSibling_append:
  "p < length d \<Longrightarrow> nextSibling (d @ [nd]) p n = nextSibling d p n"
  by (simp add: nextSibling_def nth_append)

lemma isBlankTextNode_append:
  "c < length d \<Longrightarrow> isBlankTextNode (d @ [nd]) (Some c) = isBlankTextNode d (Some c)"
  by (simp add: isBlankTextNode_def nth_append)

lemma hide_effect:
  assumes att: "attached d p n"
    and dist: "distinct (childNodes (d ! p))"
    and valid: "\<forall>c\<in>set (childNodes (d ! p)). c < length d"
    and nxt: "\<forall>c. nextSibling d p n = Some c \<and> isBlankTextNode d (Some c) \<longrightarrow> attached d p c"
    and site: "\<not> isDocumentFragment (d ! n)"
  shows "\<exists>d'. hide (Some n) d = Inr d'
      \<and> length d' = Suc (length d)
      \<and> childNodes (d' ! p) =
          concat (map (\<lambda>c. if c = n then [length d]
                           else if nextSibling d p n = Some c \<and> isBlankTextNode d (Some c) then []
                           else [c]) (childNodes (d ! p)))
      \<and> childNodes (d' ! length d) = [n]
      \<and> parentNode (d' ! length d) = Some p
      \<and> parentNode (d' ! n) = Some (length d)
      \<and> nodeName (d' ! length d) = ''div''
      \<and> attrs (d' ! length d) = [(''hidden'', []), (''by-vulcanize'', [])]
      \<and> (\<forall>m<length d. m \<noteq> p \<longrightarrow> childNodes (d' ! m) = childNodes (d ! m))
      \<and> (\<forall>m<length d. nodeName (d' ! m) = nodeName (d ! m) \<and> attrs (d' ! m) = attrs (d ! m))
      \<and> (\<forall>m<length d. m \<noteq> n \<longrightarrow>
            \<not> (nextSibling d p n = Some m \<and> isBlankTextNode d (Some m)) \<longrightarrow>
            parentNode (d' ! m) = parentNode (d ! m))"
proof -
  let ?h = "length d"
  let ?d3 = "d @ [hiddenDiv]"
  let ?bl = "\<lambda>c. nextSibling d p n = Some c \<and> isBlankTextNode d (Some c)"
  from att have n: "n < length d" and p: "p < length d" by (simp_all add: attached_def)
  have att3: "attached ?d3 p n" using att by (rule attached_append)
  have cs3: "childNodes (?d3 ! p) = childNodes (d ! p)" using p by (simp add: nth_append)
  have dist3: "distinct (childNodes (?d3 ! p))" using dist cs3 by simp
  have ns3: "nextSibling ?d3 p n = nextSibling d p n" using p by (rule nextSibling_append)
  have bl3: "\<And>c. (nextSibling ?d3 p n = Some c \<and> isBlankTextNode ?d3 (Some c)) = ?bl c"
  proof -
    fix c
    show "(nextSibling ?d3 p n = Some c \<and> isBlankTextNode ?d3 (Some c)) = ?bl c"
    proof (cases "nextSibling d p n = Some c")
      case True
      then have "c \<in> set (childNodes (d ! p))" by (auto simp: nextSibling_def dest: at_mem)
      with valid have "c < length d" by blast
      then show ?thesis by (simp add: ns3 isBlankTextNode_append)
    next
      case False
      then show ?thesis by (simp add: ns3)
    qed
  qed
  have nxt3: "\<forall>c. nextSibling ?d3 p n = Some c \<and> isBlankTextNode ?d3 (Some c) \<longrightarrow> attached ?d3 p c"
    unfolding bl3 using nxt attached_append by blast
  have h3: "?h < length ?d3" by simp
  have hp: "?h \<noteq> p" using p by simp
  have hc: "?h \<notin> set (childNodes (?d3 ! p))" using valid cs3 by auto
  have det3: "\<not> isDocumentFragment (?d3 ! ?h) \<longrightarrow> parentNode (?d3 ! ?h) = None"
    by (simp add: hiddenDiv_def newElement_def)
  have nn3: "newNodesOf ?d3 ?h = [?h]"
    by (simp add: newNodesOf_def hiddenDiv_def newElement_def isDocumentFragment_def)
  have nf3: "\<not> isDocumentFragment (?d3 ! ?h)"
    by (simp add: hiddenDiv_def newElement_def isDocumentFragment_def)
  from removeElementAndNewline_replace [OF att3 dist3 nxt3 h3 hp hc det3]
  obtain d4 where r4: "removeElementAndNewline (Some n) (Some ?h) ?d3 = Inr d4"
    and l4: "length d4 = length ?d3"
    and c4: "childNodes (d4 ! p) =
          concat (map (\<lambda>c. if c = n then [?h] else if ?bl c then [] else [c]) (childNodes (d ! p)))"
    and o4: "\<forall>m. m \<noteq> p \<longrightarrow> childNodes (d4 ! m) = childNodes (?d3 ! m)"
    and p4: "\<forall>m<length ?d3. parentNode (d4 ! m) =
            (if m = n then None
             else if m = ?h then Some p
             else if ?bl m then None
             else parentNode (?d3 ! m))"
    and f4: "\<forall>m. nodeName (d4 ! m) = nodeName (?d3 ! m) \<and> attrs (d4 ! m) = attrs (?d3 ! m)
            \<and> tagName (d4 ! m) = tagName (?d3 ! m) \<and> nodeValue (d4 ! m) = nodeValue (?d3 ! m)"
    unfolding bl3 nn3 cs3 using nf3 by auto
  let ?d5 = "insertNode ?h 0 n False d4"
  have ch4: "childNodes (d4 ! ?h) = []"
    using o4 hp by (simp add: hiddenDiv_def newElement_def)
  have run: "hide (Some n) d = Inr ?d5"
    by (simp add: hide_unfold r4 append_def ch4)
  have hl: "?h < length d4" "n < length d4" using l4 n by simp_all
  have hn: "?h \<noteq> n" using n by simp
  have pn4: "parentNode (d4 ! n) = None" using p4 n by simp
  have fn4: "isDocumentFragment (d4 ! n) = isDocumentFragment (d ! n)"
    using f4 n by (simp add: isDocumentFragment_def nth_append)
  have det4: "\<not> isDocumentFragment (d4 ! n) \<longrightarrow> parentNode (d4 ! n) = None"
    using pn4 by simp
  have nn4: "newNodesOf d4 n = [n]" using fn4 site by (simp add: newNodesOf_def)
  have c5: "\<And>m. childNodes (?d5 ! m) = (if m = ?h then [n] else childNodes (d4 ! m))"
    using insertNode_childNodes [OF hl hn det4, of 0 False] fn4 site nn4 ch4
    by (simp add: arraySplice_def)
  have p5: "\<And>m. m < length d4 \<Longrightarrow> parentNode (?d5 ! m) = (if m = n then Some ?h else parentNode (d4 ! m))"
    using insertNode_parentNode [OF hl hn _ det4, of _ 0 False] nn4 by simp
  have f5: "\<And>m. nodeName (?d5 ! m) = nodeName (d4 ! m) \<and> attrs (?d5 ! m) = attrs (d4 ! m)"
    using insertNode_fields [OF det4, of ?h 0 False] by simp
  have g1: "length ?d5 = Suc (length d)" using l4 by simp
  have g2: "childNodes (?d5 ! p) =
          concat (map (\<lambda>c. if c = n then [?h] else if ?bl c then [] else [c]) (childNodes (d ! p)))"
    using c5 [of p] hp c4 by simp
  have g3: "childNodes (?d5 ! ?h) = [n]" using c5 [of ?h] by simp
  have g4: "parentNode (?d5 ! ?h) = Some p" using p5 [OF hl(1)] hn p4 by simp
  have g5: "parentNode (?d5 ! n) = Some ?h" using p5 [OF hl(2)] by simp
  have g6: "nodeName (?d5 ! ?h) = ''div''" "attrs (?d5 ! ?h) = [(''hidden'', []), (''by-vulcanize'', [])]"
    using f5 [of ?h] f4 by (simp_all add: hiddenDiv_def newElement_def)
  have g7: "\<forall>m<length d. m \<noteq> p \<longrightarrow> childNodes (?d5 ! m) = childNodes (d ! m)"
    using c5 o4 by (simp add: nth_append)
  have g8: "\<forall>m<length d. nodeName (?d5 ! m) = nodeName (d ! m) \<and> attrs (?d5 ! m) = attrs (d ! m)"
    using f5 f4 by (simp add: nth_append)
  have g9: "\<forall>m<length d. m \<noteq> n \<longrightarrow> \<not> ?bl m \<longrightarrow> parentNode (?d5 ! m) = parentNode (d ! m)"
  proof (intro allI impI)
    fix m assume m: "m < length d" "m \<noteq> n" "\<not> ?bl m"
    then have "parentNode (?d5 ! m) = parentNode (d4 ! m)" using p5 [of m] l4 by simp
    also have "\<dots> = parentNode (?d3 ! m)" using p4 m by auto
    also have "\<dots> = parentNode (d ! m)" using m(1) by (simp add: nth_append)
    finally show "parentNode (?d5 ! m) = parentNode (d ! m)" .
  qed
  from run g1 g2 g3 g4 g5 g6 g7 g8 g9 show ?thesis by blast
qed

lemma relocated_iteration:
  assumes "\<not> isDuplicateImport im" "isStrippedImport E v im = Inr False"
    "isExcludedImport E v im = Inr False" "isTemplated d (at sites (int i)) = Inr False"
  shows "flattenImports E M v b mt th sites (im # ims) i d =
     bind (bind (flatten E M v im False (d @ [newDocumentFragment]))
             (mergeImport E M b mt th im (at sites (int i)) (length d)))
       (flattenImports E M v b mt th sites ims (Suc i))"
  using assms by (simp add: Let_def alloc_def del: flatten.simps)

lemmas placeDom_defs = placeDom_def placeInsideDom_def mkDocument_def mkElement_def mkText_def
  newDocumentFragment_def

subsection \<open>Stripping comments\<close>

lemma detachedFrom_Nil: "detachedFrom d [] d"
  by (simp add: detachedFrom_def)

lemma detachedFrom_step:
  assumes inv: "detachedFrom d R d1"
    and c: "c \<notin> set R" "attached d p c" "distinct (childNodes (d ! p))"
  shows "detachedFrom d (c # R) (remove c d1)"
proof -
  from c(2) have cl: "c < length d" and pl: "p < length d" and pc: "parentNode (d ! c) = Some p"
    and cm: "c \<in> set (childNodes (d ! p))" by (simp_all add: attached_def)
  from inv have l1: "length d1 = length d"
    and ch1: "\<And>m. childNodes (d1 ! m) =
            filter (\<lambda>x. \<not> (x \<in> set R \<and> parentNode (d ! x) = Some m)) (childNodes (d ! m))"
    and pa1: "\<And>m. m < length d \<Longrightarrow> parentNode (d1 ! m) = (if m \<in> set R then None else parentNode (d ! m))"
    and f1: "\<And>m. nodeName (d1 ! m) = nodeName (d ! m) \<and> nodeValue (d1 ! m) = nodeValue (d ! m)"
    by (simp_all add: detachedFrom_def)
  have pc1: "parentNode (d1 ! c) = Some p" using pa1 [OF cl] c(1) pc by simp
  have cm1: "c \<in> set (childNodes (d1 ! p))" using ch1 [of p] cm c(1) by simp
  have p1: "p < length d1" using l1 pl by simp
  have c1: "c < length d1" using l1 cl by simp
  have dist1: "distinct (childNodes (d1 ! p))" using ch1 [of p] c(3) by simp
  have a: "\<And>m. childNodes (remove c d1 ! m) =
            filter (\<lambda>x. \<not> (x \<in> set (c # R) \<and> parentNode (d ! x) = Some m)) (childNodes (d ! m))"
  proof -
    fix m
    show "childNodes (remove c d1 ! m) =
            filter (\<lambda>x. \<not> (x \<in> set (c # R) \<and> parentNode (d ! x) = Some m)) (childNodes (d ! m))"
    proof (cases "m = p")
      case True
      have "childNodes (remove c d1 ! p) = remove1 c (childNodes (d1 ! p))"
        using childNodes_remove [OF pc1 p1 cm1, of p] by simp
      also have "\<dots> = filter (\<lambda>x. x \<noteq> c) (childNodes (d1 ! p))"
        using dist1 by (rule remove1_filter_distinct)
      also have "\<dots> = filter (\<lambda>x. \<not> (x \<in> set (c # R) \<and> parentNode (d ! x) = Some p)) (childNodes (d ! p))"
        unfolding ch1 [of p] filter_filter using pc by (intro filter_cong) auto
      finally show ?thesis using True by simp
    next
      case False
      have "childNodes (remove c d1 ! m) = childNodes (d1 ! m)"
        using childNodes_remove [OF pc1 p1 cm1, of m] False by simp
      also have "\<dots> = filter (\<lambda>x. \<not> (x \<in> set (c # R) \<and> parentNode (d ! x) = Some m)) (childNodes (d ! m))"
        unfolding ch1 [of m] using pc False by (intro filter_cong) auto
      finally show ?thesis .
    qed
  qed
  have b: "\<And>m. m < length d \<Longrightarrow> parentNode (remove c d1 ! m) = (if m \<in> set (c # R) then None else parentNode (d ! m))"
    using parentNode_remove [OF c1] pa1 by simp
  have e: "\<And>m. nodeName (remove c d1 ! m) = nodeName (d ! m) \<and> nodeValue (remove c d1 ! m) = nodeValue (d ! m)"
    using f1 by (simp add: remove_fields)
  show ?thesis
    unfolding detachedFrom_def using a b e l1 by simp
qed

lemma removeComments_effect:
  assumes "detachedFrom d R d1" "distinct cs" "set cs \<inter> set R = {}"
    and "\<forall>c\<in>set cs. \<exists>p. attached d p c \<and> distinct (childNodes (d ! p))"
  shows "\<exists>d2. removeComments cs comments d1 = (recordAll d cs comments, d2)
      \<and> detachedFrom d (rev cs @ R) d2"
  using assms
proof (induction cs arbitrary: R d1 comments)
  case Nil
  then show ?case by simp
next
  case (Cons c cs)
  from Cons.prems obtain p where p: "attached d p c" "distinct (childNodes (d ! p))" by auto
  from Cons.prems have cR: "c \<notin> set R" by auto
  have inv: "detachedFrom d (c # R) (remove c d1)"
    by (rule detachedFrom_step [OF Cons.prems(1) cR p])
  from Cons.prems have d: "distinct cs" and dj: "set cs \<inter> set (c # R) = {}"
    and at: "\<forall>c\<in>set cs. \<exists>p. attached d p c \<and> distinct (childNodes (d ! p))"
    by auto
  from Cons.IH [OF inv d dj at, of "commentMapSet comments (nodeValue (d ! c)) c"]
  obtain d2 where d2: "removeComments cs (commentMapSet comments (nodeValue (d ! c)) c) (remove c d1)
        = (recordAll d cs (commentMapSet comments (nodeValue (d ! c)) c), d2)"
    and inv2: "detachedFrom d (rev cs @ c # R) d2" by blast
  from Cons.prems(1) have "nodeValue (d1 ! c) = nodeValue (d ! c)" by (simp add: detachedFrom_def)
  with d2 inv2 show ?case by simp
qed

lemma licenseFirsts_seen_set:
  "set seen = set seen' \<Longrightarrow> licenseFirsts d seen cs = licenseFirsts d seen' cs"
proof (induction cs arbitrary: seen seen')
  case Nil
  then show ?case by simp
next
  case (Cons c cs)
  from Cons.prems have "set (nodeValue (d ! c) # seen) = set (nodeValue (d ! c) # seen')" by simp
  from Cons.IH [OF this] Cons.IH [OF Cons.prems] Cons.prems show ?case by simp
qed

lemma licenseNodes_append [simp]:
  "licenseNodes (xs @ ys) = licenseNodes xs @ licenseNodes ys"
  by (simp add: licenseNodes_def)

lemma map_of_None_keys: "(map_of m k = None) = (k \<notin> set (map fst m))"
  by (simp add: map_of_eq_None_iff)

lemma recordAll_licenseNodes:
  "licenseNodes (recordAll d cs comments)
     = licenseNodes comments @ licenseFirsts d (map fst comments) cs"
proof (induction cs arbitrary: comments)
  case Nil
  then show ?case by simp
next
  case (Cons c cs)
  let ?t = "nodeValue (d ! c)"
  show ?case
  proof (cases "?t \<in> set (map fst comments)")
    case True
    then have "commentMapSet comments ?t c = comments"
      by (simp add: commentMapSet_def map_of_None_keys)
    with True Cons.IH [of comments] show ?thesis by simp
  next
    case False
    then have e: "commentMapSet comments ?t c = comments @ [(?t, c)]"
      by (simp add: commentMapSet_def map_of_None_keys)
    have s: "licenseFirsts d (map fst (comments @ [(?t, c)])) cs = licenseFirsts d (?t # map fst comments) cs"
      by (rule licenseFirsts_seen_set) auto
    from False Cons.IH [of "comments @ [(?t, c)]"] show ?thesis
      unfolding recordAll.simps e s by (simp add: licenseNodes_def)
  qed
qed

lemma recordAll_distinct:
  "distinct (map fst comments) \<Longrightarrow> distinct (map fst (recordAll d cs comments))"
proof (induction cs arbitrary: comments)
  case Nil
  then show ?case by simp
next
  case (Cons c cs)
  have "distinct (map fst (commentMapSet comments (nodeValue (d ! c)) c))"
    using Cons.prems by (auto simp: commentMapSet_def map_of_None_keys)
  from Cons.IH [OF this] show ?case by simp
qed

lemma restoreLicenses_prependAll:
  assumes "distinct (map fst comments)" "set ks \<subseteq> set comments"
  shows "restoreLicenses hN comments (map fst ks) d = prependAll hN (licenseNodes ks) d"
  using assms(2)
proof (induction ks arbitrary: d)
  case Nil
  then show ?case by (simp add: licenseNodes_def)
next
  case (Cons kc ks)
  obtain k c where kc: "kc = (k, c)" by (cases kc)
  with Cons.prems have mem: "(k, c) \<in> set comments" and sub: "set ks \<subseteq> set comments" by auto
  from mem assms(1) have get: "commentMapGet comments k = Some c"
    by (simp add: commentMapGet_def)
  show ?case
  proof (cases "containsStr k ''@license''")
    case True
    have "restoreLicenses hN comments (map fst ks) = prependAll hN (licenseNodes ks)"
      by (rule ext) (rule Cons.IH [OF sub])
    with True get kc show ?thesis by (simp add: licenseNodes_def)
  next
    case False
    with Cons.IH [OF sub, of d] kc show ?thesis by (simp add: licenseNodes_def)
  qed
qed

lemma prepend_detached:
  assumes "h < length d" "c < length d" "h \<noteq> c" "parentNode (d ! c) = None"
    "\<not> isDocumentFragment (d ! c)"
  shows "\<exists>d'. prepend (Some h) c d = Inr d' \<and> length d' = length d
      \<and> childNodes (d' ! h) = c # childNodes (d ! h)
      \<and> (\<forall>m. m \<noteq> h \<longrightarrow> childNodes (d' ! m) = childNodes (d ! m))
      \<and> (\<forall>m<length d. parentNode (d' ! m) = (if m = c then Some h else parentNode (d ! m)))
      \<and> (\<forall>m. nodeName (d' ! m) = nodeName (d ! m) \<and> nodeValue (d' ! m) = nodeValue (d ! m))"
proof -
  let ?d' = "insertNode h 0 c False d"
  have run: "prepend (Some h) c d = Inr ?d'"
    by (cases "childNodes (d ! h) = []") (simp_all add: prepend_def append_def insertBefore_def indexOf_hd)
  have det: "\<not> isDocumentFragment (d ! c) \<longrightarrow> parentNode (d ! c) = None" using assms(4) by simp
  have nn: "newNodesOf d c = [c]" using assms(5) by (simp add: newNodesOf_def)
  have a: "\<And>m. childNodes (?d' ! m) = (if m = h then c # childNodes (d ! h) else childNodes (d ! m))"
    using insertNode_childNodes [OF assms(1,2,3) det, of 0 False] nn assms(5)
    by (simp add: arraySplice_0)
  have b: "\<And>m. m < length d \<Longrightarrow> parentNode (?d' ! m) = (if m = c then Some h else parentNode (d ! m))"
    using insertNode_parentNode [OF assms(1,2,3) _ det, of _ 0 False] nn by simp
  have e: "\<And>m. nodeName (?d' ! m) = nodeName (d ! m) \<and> nodeValue (?d' ! m) = nodeValue (d ! m)"
    using insertNode_fields [OF det, of h 0 False] by simp
  from run a b e show ?thesis by simp
qed

lemma prependAll_effect:
  assumes "h < length d" "distinct L"
    and "\<forall>c\<in>set L. c < length d \<and> c \<noteq> h \<and> parentNode (d ! c) = None \<and> \<not> isDocumentFragment (d ! c)"
  shows "\<exists>d'. prependAll (Some h) L d = Inr d' \<and> length d' = length d
      \<and> childNodes (d' ! h) = rev L @ childNodes (d ! h)
      \<and> (\<forall>m. m \<noteq> h \<longrightarrow> childNodes (d' ! m) = childNodes (d ! m))
      \<and> (\<forall>m<length d. parentNode (d' ! m) = (if m \<in> set L then Some h else parentNode (d ! m)))
      \<and> (\<forall>m. nodeName (d' ! m) = nodeName (d ! m) \<and> nodeValue (d' ! m) = nodeValue (d ! m))"
  using assms
proof (induction L arbitrary: d)
  case Nil
  then show ?case by simp
next
  case (Cons c L)
  from Cons.prems have c: "c < length d" "h \<noteq> c" "parentNode (d ! c) = None" "\<not> isDocumentFragment (d ! c)"
    by auto
  from prepend_detached [OF Cons.prems(1) c]
  obtain d1 where r1: "prepend (Some h) c d = Inr d1" and l1: "length d1 = length d"
    and ch1: "childNodes (d1 ! h) = c # childNodes (d ! h)"
    and co1: "\<forall>m. m \<noteq> h \<longrightarrow> childNodes (d1 ! m) = childNodes (d ! m)"
    and pa1: "\<forall>m<length d. parentNode (d1 ! m) = (if m = c then Some h else parentNode (d ! m))"
    and f1: "\<forall>m. nodeName (d1 ! m) = nodeName (d ! m) \<and> nodeValue (d1 ! m) = nodeValue (d ! m)"
    by blast
  have h1: "h < length d1" using l1 Cons.prems(1) by simp
  have dl: "distinct L" and cL: "c \<notin> set L" using Cons.prems(2) by simp_all
  have rest: "\<forall>x\<in>set L. x < length d1 \<and> x \<noteq> h \<and> parentNode (d1 ! x) = None \<and> \<not> isDocumentFragment (d1 ! x)"
  proof
    fix x assume x: "x \<in> set L"
    with Cons.prems(3) have y: "x < length d" "x \<noteq> h" "parentNode (d ! x) = None" "\<not> isDocumentFragment (d ! x)"
      by auto
    from x cL have "x \<noteq> c" by auto
    with pa1 y(1,3) have "parentNode (d1 ! x) = None" by simp
    moreover from f1 y(4) have "\<not> isDocumentFragment (d1 ! x)" by (simp add: isDocumentFragment_def)
    ultimately show "x < length d1 \<and> x \<noteq> h \<and> parentNode (d1 ! x) = None \<and> \<not> isDocumentFragment (d1 ! x)"
      using y(1,2) l1 by simp
  qed
  from Cons.IH [OF h1 dl rest]
  obtain d' where r: "prependAll (Some h) L d1 = Inr d'" and l: "length d' = length d1"
    and ch: "childNodes (d' ! h) = rev L @ childNodes (d1 ! h)"
    and co: "\<forall>m. m \<noteq> h \<longrightarrow> childNodes (d' ! m) = childNodes (d1 ! m)"
    and pa: "\<forall>m<length d1. parentNode (d' ! m) = (if m \<in> set L then Some h else parentNode (d1 ! m))"
    and f: "\<forall>m. nodeName (d' ! m) = nodeName (d1 ! m) \<and> nodeValue (d' ! m) = nodeValue (d1 ! m)"
    by blast
  have g0: "prependAll (Some h) (c # L) d = Inr d'" using r1 r by simp
  have g1: "length d' = length d" using l l1 by simp
  have g2: "childNodes (d' ! h) = rev (c # L) @ childNodes (d ! h)" using ch ch1 by simp
  have g3: "\<forall>m. m \<noteq> h \<longrightarrow> childNodes (d' ! m) = childNodes (d ! m)" using co co1 by simp
  have g4: "\<forall>m<length d. parentNode (d' ! m) = (if m \<in> set (c # L) then Some h else parentNode (d ! m))"
    using pa pa1 l1 by auto
  have g5: "\<forall>m. nodeName (d' ! m) = nodeName (d ! m) \<and> nodeValue (d' ! m) = nodeValue (d ! m)"
    using f f1 by simp
  from g0 g1 g2 g3 g4 g5 show ?case by blast
qed

lemma licenseFirsts_subset: "set (licenseFirsts d seen cs) \<subseteq> set cs"
  by (induction cs arbitrary: seen) auto

lemma licenseFirsts_distinct: "distinct cs \<Longrightarrow> distinct (licenseFirsts d seen cs)"
proof (induction cs arbitrary: seen)
  case Nil
  then show ?case by simp
next
  case (Cons c cs)
  then show ?case using licenseFirsts_subset [of d _ cs] by auto
qed

lemma licenseFirsts_values:
  "set (map (\<lambda>c. nodeValue (d ! c)) (licenseFirsts d seen cs))
     = {t \<in> set (map (\<lambda>c. nodeValue (d ! c)) cs). containsStr t ''@license'' \<and> t \<notin> set seen}"
proof (induction cs arbitrary: seen)
  case Nil
  then show ?case by simp
next
  case (Cons c cs)
  let ?t = "nodeValue (d ! c)"
  show ?case
  proof (cases "?t \<in> set seen")
    case True
    then show ?thesis using Cons.IH [of seen] by auto
  next
    case False
    show ?thesis
    proof (cases "containsStr ?t ''@license''")
      case True
      with False show ?thesis using Cons.IH [of "?t # seen"] by auto
    next
      case no: False
      with False show ?thesis using Cons.IH [of "?t # seen"] by auto
    qed
  qed
qed

lemma licenseFirsts_distinct_values:
  "distinct (map (\<lambda>c. nodeValue (d ! c)) (licenseFirsts d seen cs))"
proof (induction cs arbitrary: seen)
  case Nil
  then show ?case by simp
next
  case (Cons c cs)
  have "nodeValue (d ! c) \<notin> set (map (\<lambda>c. nodeValue (d ! c)) (licenseFirsts d (nodeValue (d ! c) # seen) cs))"
    unfolding licenseFirsts_values by simp
  with Cons.IH show ?case by simp
qed

lemma nodeWalkAll_sat:
  "nodeWalkAll k d P n = Some ms \<Longrightarrow> \<forall>m\<in>set ms. P (d ! m)"
  "nodeWalkAllChildren k d P ns = Some ms' \<Longrightarrow> \<forall>m\<in>set ms'. P (d ! m)"
proof (induction k d P n and k d P ns arbitrary: ms and ms' rule: nodeWalkAll_nodeWalkAllChildren.induct)
  case (1 d P n)
  then show ?case by simp
next
  case (2 k d P n)
  then show ?case by (auto split: option.splits if_splits)
next
  case (3 k d P)
  then show ?case by simp
next
  case (4 k d P c cs)
  then show ?case by (auto split: option.splits)
qed

lemmas commentsDom_defs = commentsDom_def mkDocument_def mkElement_def mkComment_def

lemma commentsDom_walk:
  "nodeWalkAll (length commentsDom) commentsDom isCommentNode 0 = Some [3, 6, 7, 8, 9]"
  by (simp add: commentsDom_defs isCommentNode_def)

lemma commentsDom_firsts: "licenseFirsts commentsDom [] [3, 6, 7, 8, 9] = [3, 9]"
  by (simp add: commentsDom_defs)

subsection \<open>The legacy check inside the loop\<close>

lemma flatten_old_polymer:
  assumes hd: "query d doc (head M) = Inr headNode"
    and bd: "query d doc (body M) = Inr bodyNode"
    and old: "hasOldPolymer M d doc = Inr True"
  shows "flatten E M v (Tree h doc sites ims) isMainDoc d =
       Inl (Error (OLD_POLYMER E @ '' File: '' @ urlToPath E h))"
    and "\<not> isDuplicateImport (Tree h doc sites ims)
      \<Longrightarrow> isStrippedImport E v (Tree h doc sites ims) = Inr False
      \<Longrightarrow> isExcludedImport E v (Tree h doc sites ims) = Inr False
      \<Longrightarrow> isTemplated d0 (at parentSites (int i)) = Inr False
      \<Longrightarrow> d = d0 @ [newDocumentFragment]
      \<Longrightarrow> flattenImports E M v b moveTarget parentHref parentSites (Tree h doc sites ims # rest) i d0
            = Inl (Error (OLD_POLYMER E @ '' File: '' @ urlToPath E h))"
proof -
  have f: "\<And>w m. flatten E M w (Tree h doc sites ims) m d =
       Inl (Error (OLD_POLYMER E @ '' File: '' @ urlToPath E h))"
    by (simp add: flattenStart_old [OF hd bd old])
  show "flatten E M v (Tree h doc sites ims) isMainDoc d =
       Inl (Error (OLD_POLYMER E @ '' File: '' @ urlToPath E h))" by (rule f)
  show "flattenImports E M v b moveTarget parentHref parentSites (Tree h doc sites ims # rest) i d0
        = Inl (Error (OLD_POLYMER E @ '' File: '' @ urlToPath E h))"
    if "\<not> isDuplicateImport (Tree h doc sites ims)"
      and "isStrippedImport E v (Tree h doc sites ims) = Inr False"
      and "isExcludedImport E v (Tree h doc sites ims) = Inr False"
      and "isTemplated d0 (at parentSites (int i)) = Inr False"
      and "d = d0 @ [newDocumentFragment]"
    using relocated_iteration [OF that(1-4)] f that(5) by simp
qed

subsection \<open>Implicit excludes\<close>

lemma endsWith_append: "endsWith suffix s \<Longrightarrow> \<exists>pre. s = pre @ suffix"
proof -
  assume a: "endsWith suffix s"
  have "s = take (length s - length suffix) s @ drop (length s - length suffix) s" by simp
  with a have "s = take (length s - length suffix) s @ suffix" by (simp add: endsWith_def)
  then show ?thesis by blast
qed

lemma endsWith_matchAnyThen:
  assumes "endsWith (c # suffix) s" "\<not> isLineTerminator c"
  shows "matchAnyThen suffix s"
proof -
  from endsWith_append [OF assms(1)] obtain pre where s: "s = pre @ c # suffix" by blast
  show ?thesis using assms(2) by (simp add: s matchAnyThen_def Let_def nth_append)
qed

text \<open>
  The loop of lines 367-383 passes over every exclude that ends in \<^verbatim>\<open>.js\<close>, in
  \<^verbatim>\<open>.css\<close> or in \<^verbatim>\<open>/\<close>.
\<close>

lemma suffix_excludes_not_analyzed:
  assumes "endsWith ''.js'' x \<or> endsWith ''.css'' x \<or> endsWith ''/'' x"
  shows "analyzedExcludes E (x # rest) = analyzedExcludes E rest"
proof -
  have d: "\<not> isLineTerminator CHR ''.''" by (simp add: isLineTerminator_def)
  from assms consider "endsWith ''.js'' x" | "endsWith ''.css'' x" | "endsWith ''/'' x" by blast
  then show ?thesis
  proof cases
    case 1 from endsWith_matchAnyThen [OF 1 d] show ?thesis by simp
  next
    case 2 from endsWith_matchAnyThen [OF 2 d] show ?thesis by simp
  next
    case 3
    from endsWith_append [OF 3] obtain pre where "x = pre @ ''/''" by blast
    then show ?thesis by simp
  qed
qed

text \<open>The order of \<^verbatim>\<open>Object.keys\<close> on keys of both kinds.\<close>

lemma objectKeys_example:
  "objectKeys (dedupeKeys [] [''b.html'', ''10'', ''a.html'', ''9'', ''b.html'', ''07''])
     = [''9'', ''10'', ''b.html'', ''a.html'', ''07'']"
  by (simp add: objectKeys_def isArrayIndex_def isDigit_def digitsValue_def)

section \<open>The claims\<close>

text \<open>
  C1. In \<^verbatim>\<open>flatten\<close>, an import edge whose href is absent (a duplicate) or that matches
  a strip-exclusion pattern loses its import site, wherever the edge stands in the list of
  imports: after any edges \<open>pre\<close> that leave the store \<open>d\<close>, the iteration for the edge
  succeeds, the import site \<open>n\<close> and a blank text node right after it leave the child list
  of their parent, the other children keep their order, the parent reference of the site is
  cleared, no other node gets a child and no node is created; the loop goes on with the
  edges \<open>post\<close> from that store. The import site and the blank text are attached nodes.
\<close>

theorem elided_import_site_removed:
  assumes elide: "isDuplicateImport im \<or> isStrippedImport E v im = Inr True"
    and pre: "flattenImports E M v b mt th sites pre j d0 = Inr d"
    and site: "at sites (int (j + length pre)) = Some n"
    and att: "attached d p n"
    and dist: "distinct (childNodes (d ! p))"
    and nxt: "\<forall>x. nextSibling d p n = Some x \<and> isBlankTextNode d (Some x) \<longrightarrow> attached d p x"
  shows "\<exists>d'. flattenImports E M v b mt th sites (pre @ [im]) j d0 = Inr d'
      \<and> flattenImports E M v b mt th sites (pre @ im # post) j d0 =
          flattenImports E M v b mt th sites post (Suc (j + length pre)) d'
      \<and> length d' = length d
      \<and> childNodes (d' ! p) =
          filter (\<lambda>c. c \<noteq> n \<and> \<not> (nextSibling d p n = Some c \<and> isBlankTextNode d (Some c)))
            (childNodes (d ! p))
      \<and> parentNode (d' ! n) = None
      \<and> (\<forall>m. m \<noteq> p \<longrightarrow> childNodes (d' ! m) = childNodes (d ! m))"
proof -
  from removeElementAndNewline_effect [OF att dist] nxt
  obtain d' where r: "removeElementAndNewline (Some n) None d = Inr d'"
    and eff: "length d' = length d"
      "childNodes (d' ! p) =
          filter (\<lambda>c. c \<noteq> n \<and> \<not> (nextSibling d p n = Some c \<and> isBlankTextNode d (Some c)))
            (childNodes (d ! p))"
      "parentNode (d' ! n) = None"
      "\<forall>m. m \<noteq> p \<longrightarrow> childNodes (d' ! m) = childNodes (d ! m)"
    by blast
  have step: "\<And>ims. flattenImports E M v b mt th sites (im # ims) (j + length pre) d =
      flattenImports E M v b mt th sites ims (Suc (j + length pre)) d'"
    by (simp only: step_elide [OF elide] site r bind_Inr)
  have "flattenImports E M v b mt th sites (pre @ [im]) j d0 = Inr d'"
    using pre step [of "[]"] by (simp add: flattenImports_append)
  moreover have "flattenImports E M v b mt th sites (pre @ im # post) j d0 =
          flattenImports E M v b mt th sites post (Suc (j + length pre)) d'"
    using pre step [of post] by (simp add: flattenImports_append)
  ultimately show ?thesis using eff by blast
qed

theorem elided_import_site_removed_witness:
  "isStrippedImport exampleEnv exampleVulcan (Tree (Some ''strip/me.html'') 0 [] []) = Inr True
   \<and> attached exampleDom 5 6
   \<and> nextSibling exampleDom 5 6 = Some 7 \<and> isBlankTextNode exampleDom (Some 7)
   \<and> (\<exists>d'. flattenImports exampleEnv exampleMatchers exampleVulcan True 0 None [6]
              ([] @ [Tree (Some ''strip/me.html'') 0 [] []]) 0 exampleDom = Inr d'
         \<and> length d' = 9 \<and> childNodes (d' ! 5) = [8] \<and> parentNode (d' ! 6) = None)
   \<and> flatten exampleEnv exampleMatchers exampleVulcan
        (Tree (Some ''index.html'') 0 [4] [Tree (Some ''strip/me.html'') 7 [] []]) True strippedDom
      = Inr strippedFlat"
proof -
  have whole: "flatten exampleEnv exampleMatchers exampleVulcan
        (Tree (Some ''index.html'') 0 [4] [Tree (Some ''strip/me.html'') 7 [] []]) True strippedDom
      = Inr strippedFlat"
    by code_simp
  have h1: "isDuplicateImport (Tree (Some ''strip/me.html'') 0 [] [])
      \<or> isStrippedImport exampleEnv exampleVulcan (Tree (Some ''strip/me.html'') 0 [] []) = Inr True"
    by (simp add: isStrippedImport_def example_defs)
  have h2: "flattenImports exampleEnv exampleMatchers exampleVulcan True 0 None [6] [] 0 exampleDom
      = Inr exampleDom" by simp
  have h3: "at [6] (int (0 + length ([] :: tree list))) = Some (6::nat)" by (simp add: at_def)
  have h4: "attached exampleDom 5 6" by (simp add: attached_def example_defs)
  have h5: "distinct (childNodes (exampleDom ! 5))" by (simp add: example_defs)
  have n7: "nextSibling exampleDom 5 6 = Some 7" by (simp add: nextSibling_def at_def example_defs)
  have h6: "\<forall>x. nextSibling exampleDom 5 6 = Some x \<and> isBlankTextNode exampleDom (Some x)
      \<longrightarrow> attached exampleDom 5 x"
  proof (intro allI impI)
    fix x
    assume "nextSibling exampleDom 5 6 = Some x \<and> isBlankTextNode exampleDom (Some x)"
    with n7 have "x = 7" by simp
    then show "attached exampleDom 5 x" by (simp add: attached_def example_defs)
  qed
  have b7: "isBlankTextNode exampleDom (Some 7)"
    by (simp add: isBlankTextNode_def isTextNode_def getTextContent_def isSpace_def example_defs)
  have f: "filter (\<lambda>c. c \<noteq> 6 \<and> \<not> (nextSibling exampleDom 5 6 = Some c \<and> isBlankTextNode exampleDom (Some c)))
            (childNodes (exampleDom ! 5)) = [8]"
    using b7 by (simp add: n7) (simp add: example_defs)
  have l: "length exampleDom = 9" by (simp add: example_defs)
  from elided_import_site_removed [OF h1 h2 h3 h4 h5 h6, of "[]"] f l h1 h4 n7 b7
  have "isStrippedImport exampleEnv exampleVulcan (Tree (Some ''strip/me.html'') 0 [] []) = Inr True
   \<and> attached exampleDom 5 6
   \<and> nextSibling exampleDom 5 6 = Some 7 \<and> isBlankTextNode exampleDom (Some 7)
   \<and> (\<exists>d'. flattenImports exampleEnv exampleMatchers exampleVulcan True 0 None [6]
              ([] @ [Tree (Some ''strip/me.html'') 0 [] []]) 0 exampleDom = Inr d'
         \<and> length d' = 9 \<and> childNodes (d' ! 5) = [8] \<and> parentNode (d' ! 6) = None)"
    by (auto simp: isDuplicateImport_def truthy_def)
  with whole show ?thesis by blast
qed

text \<open>
  C2. The document \<open>oldPolymerDom\<close> holds a \<^verbatim>\<open>polymer-element\<close>, markup of the legacy
  dialect. \<^verbatim>\<open>flatten\<close> fails on its tree with an \<^verbatim>\<open>Error\<close> whose message is the
  legacy notice followed by \<^verbatim>\<open> File: \<close> and the path of the tree's href, and so does
  the loop of a document that imports it (\<open>flatten_old_polymer\<close> has both for any such
  tree). The run does not hand this error to the completion callback: \<^verbatim>\<open>_process\<close>
  throws a ReferenceError where it constructs the analyzer, at line 404, or at line 365 when
  \<^verbatim>\<open>implicitStrip\<close> is on, before the analyzer is asked for the tree and before the
  handler that would call the callback is attached. It does so for every target.
\<close>

theorem old_polymer_aborts:
  "hasOldPolymer exampleMatchers oldPolymerDom 0 = Inr True
   \<and> flatten exampleEnv exampleMatchers exampleVulcan (Tree (Some ''old.html'') 0 [] []) True oldPolymerDom
       = Inl (Error ''Polymer 0.5 elements are not supported. File: old.html'')
   \<and> flattenImports exampleEnv exampleMatchers exampleVulcan True 10 (Some ''index.html'') [4]
         [Tree (Some ''old.html'') 5 [] []] 0 nestedOldDom
       = Inl (Error ''Polymer 0.5 elements are not supported. File: old.html'')
   \<and> process' (exampleEnv\<lparr>metadataTree := \<lambda>t. Inr (Tree (Some ''old.html'') 0 [] [], oldPolymerDom)\<rparr>)
        exampleMatchers exampleVulcan ''old.html'' = Thrown ReferenceError
   \<and> process' (exampleEnv\<lparr>metadataTree := \<lambda>t. Inr (Tree (Some ''old.html'') 0 [] [], oldPolymerDom)\<rparr>)
        exampleMatchers (exampleVulcan\<lparr>implicitStrip := True\<rparr>) ''old.html'' = Thrown ReferenceError
   \<and> process' E M v target = Thrown ReferenceError"
proof -
  have e1: "OLD_POLYMER exampleEnv @ '' File: '' @ urlToPath exampleEnv (Some ''old.html'')
      = ''Polymer 0.5 elements are not supported. File: old.html''"
    by (simp add: exampleEnv_def)
  have r1: "flatten exampleEnv exampleMatchers exampleVulcan (Tree (Some ''old.html'') 0 [] []) True oldPolymerDom
       = Inl (Error ''Polymer 0.5 elements are not supported. File: old.html'')"
    using flatten_old_polymer(1) [OF oldPolymerDom_head oldPolymerDom_body oldPolymerDom_old,
      where E = exampleEnv and v = exampleVulcan and h = "Some ''old.html''" and sites = "[]"
      and ims = "[]" and isMainDoc = True]
    unfolding e1 .
  have r2: "flattenImports exampleEnv exampleMatchers exampleVulcan True 10 (Some ''index.html'') [4]
         [Tree (Some ''old.html'') 5 [] []] 0 nestedOldDom
       = Inl (Error ''Polymer 0.5 elements are not supported. File: old.html'')"
    using flatten_old_polymer(2) [OF nestedOldDom_head nestedOldDom_body nestedOldDom_old
      nestedOldDom_policy nestedOldDom_site refl,
      where b = True and moveTarget = 10 and parentHref = "Some ''index.html''" and rest = "[]"]
    unfolding e1 .
  have r3: "\<And>E M v target. process' E M v target = Thrown ReferenceError"
    by (simp add: process'_def getImplicitExcludes_def newAnalyzer_def)
  from oldPolymerDom_old r1 r2 r3 show ?thesis by simp
qed

text \<open>
  C3. The stage of \<^verbatim>\<open>_process\<close> that strips the comments, on a document whose comment
  nodes \<open>cs\<close> (what the walk returns, in document order) are distinct attached nodes. The
  stage succeeds and creates no node. Every comment leaves the child list of its parent and
  loses its parent reference; then, for each distinct text that contains \<^verbatim>\<open>@license\<close>,
  exactly one comment with that text, the first of \<open>cs\<close> that carries it, is put back as a
  child of the head, in front of everything the head holds (the later a text was first
  seen, the nearer to the front). The other comments, the repeated license texts and all
  comments without the license marker, stay detached. No text is changed.
\<close>

theorem strip_comments_one_license_copy:
  assumes hd: "query d doc (head M) = Inr (Some h)"
    and h: "h < length d" "h \<notin> set cs"
    and walk: "nodeWalkAll (length d) d isCommentNode doc = Some cs"
    and dist: "distinct cs"
    and att: "\<forall>c\<in>set cs. \<exists>p. attached d p c \<and> distinct (childNodes (d ! p))"
  shows "\<exists>d'. stripCommentsStage M doc d = Inr d' \<and> length d' = length d
      \<and> (\<forall>m. childNodes (d' ! m) =
            (if m = h then rev (licenseFirsts d [] cs) else [])
              @ filter (\<lambda>x. \<not> (x \<in> set cs \<and> parentNode (d ! x) = Some m)) (childNodes (d ! m)))
      \<and> (\<forall>c\<in>set cs. parentNode (d' ! c) =
            (if c \<in> set (licenseFirsts d [] cs) then Some h else None))
      \<and> (\<forall>m. nodeName (d' ! m) = nodeName (d ! m) \<and> nodeValue (d' ! m) = nodeValue (d ! m))
      \<and> set (licenseFirsts d [] cs) \<subseteq> set cs
      \<and> distinct (map (\<lambda>c. nodeValue (d ! c)) (licenseFirsts d [] cs))
      \<and> set (map (\<lambda>c. nodeValue (d ! c)) (licenseFirsts d [] cs))
          = {t \<in> set (map (\<lambda>c. nodeValue (d ! c)) cs). containsStr t ''@license''}"
proof -
  let ?L = "licenseFirsts d [] cs"
  let ?comments = "recordAll d cs []"
  from removeComments_effect [OF detachedFrom_Nil dist _ att, of "[]"]
  obtain d2 where rc: "removeComments cs [] d = (?comments, d2)"
    and inv: "detachedFrom d (rev cs @ []) d2" by auto
  from inv have l2: "length d2 = length d"
    and ch2: "\<And>m. childNodes (d2 ! m) =
            filter (\<lambda>x. \<not> (x \<in> set cs \<and> parentNode (d ! x) = Some m)) (childNodes (d ! m))"
    and pa2: "\<And>m. m < length d \<Longrightarrow> parentNode (d2 ! m) = (if m \<in> set cs then None else parentNode (d ! m))"
    and f2: "\<And>m. nodeName (d2 ! m) = nodeName (d ! m) \<and> nodeValue (d2 ! m) = nodeValue (d ! m)"
    by (simp_all add: detachedFrom_def)
  have lic: "licenseNodes ?comments = ?L"
    using recordAll_licenseNodes [of d cs "[]"] by (simp add: licenseNodes_def)
  have dk: "distinct (map fst ?comments)" by (rule recordAll_distinct) simp
  have rl: "restoreLicenses (Some h) ?comments (commentMapKeys ?comments) d2 = prependAll (Some h) ?L d2"
    unfolding commentMapKeys_def using restoreLicenses_prependAll [OF dk subset_refl] lic by simp
  have sub: "set ?L \<subseteq> set cs" by (rule licenseFirsts_subset)
  have dL: "distinct ?L" using dist by (rule licenseFirsts_distinct)
  have com: "\<forall>c\<in>set cs. isCommentNode (d ! c)" using nodeWalkAll_sat(1) [OF walk] .
  have cl: "\<forall>c\<in>set cs. c < length d" using att by (auto simp: attached_def)
  have h2: "h < length d2" using l2 h(1) by simp
  have pre: "\<forall>c\<in>set ?L. c < length d2 \<and> c \<noteq> h \<and> parentNode (d2 ! c) = None \<and> \<not> isDocumentFragment (d2 ! c)"
  proof
    fix c assume "c \<in> set ?L"
    with sub have c: "c \<in> set cs" by blast
    with cl have c1: "c < length d" by blast
    from c h(2) have c2: "c \<noteq> h" by auto
    from pa2 [OF c1] c have c3: "parentNode (d2 ! c) = None" by simp
    from com c have "nodeName (d ! c) = ''#comment''" by (simp add: isCommentNode_def)
    with f2 [of c] have c4: "\<not> isDocumentFragment (d2 ! c)" by (simp add: isDocumentFragment_def)
    from c1 c2 c3 c4 l2 show "c < length d2 \<and> c \<noteq> h \<and> parentNode (d2 ! c) = None \<and> \<not> isDocumentFragment (d2 ! c)"
      by simp
  qed
  from prependAll_effect [OF h2 dL pre]
  obtain d' where r: "prependAll (Some h) ?L d2 = Inr d'" and l: "length d' = length d2"
    and ch: "childNodes (d' ! h) = rev ?L @ childNodes (d2 ! h)"
    and co: "\<forall>m. m \<noteq> h \<longrightarrow> childNodes (d' ! m) = childNodes (d2 ! m)"
    and pa: "\<forall>m<length d2. parentNode (d' ! m) = (if m \<in> set ?L then Some h else parentNode (d2 ! m))"
    and f: "\<forall>m. nodeName (d' ! m) = nodeName (d2 ! m) \<and> nodeValue (d' ! m) = nodeValue (d2 ! m)"
    by blast
  have run: "stripCommentsStage M doc d = Inr d'"
    using hd walk rc rl r by (simp add: stripCommentsStage_def)
  have g1: "length d' = length d" using l l2 by simp
  have g2: "\<forall>m. childNodes (d' ! m) =
          (if m = h then rev ?L else [])
            @ filter (\<lambda>x. \<not> (x \<in> set cs \<and> parentNode (d ! x) = Some m)) (childNodes (d ! m))"
    using ch co ch2 by simp
  have g3: "\<forall>c\<in>set cs. parentNode (d' ! c) = (if c \<in> set ?L then Some h else None)"
  proof
    fix c assume c: "c \<in> set cs"
    with cl have c1: "c < length d" by blast
    with pa l2 have "parentNode (d' ! c) = (if c \<in> set ?L then Some h else parentNode (d2 ! c))" by simp
    with pa2 [OF c1] c show "parentNode (d' ! c) = (if c \<in> set ?L then Some h else None)" by simp
  qed
  have g5: "\<forall>m. nodeName (d' ! m) = nodeName (d ! m) \<and> nodeValue (d' ! m) = nodeValue (d ! m)"
    using f f2 by simp
  have g6: "distinct (map (\<lambda>c. nodeValue (d ! c)) ?L)" by (rule licenseFirsts_distinct_values)
  have g7: "set (map (\<lambda>c. nodeValue (d ! c)) ?L)
          = {t \<in> set (map (\<lambda>c. nodeValue (d ! c)) cs). containsStr t ''@license''}"
    using licenseFirsts_values [of d "[]" cs] by simp
  from run g1 g2 g3 g5 sub g6 g7 show ?thesis by blast
qed

theorem strip_comments_one_license_copy_witness:
  "nodeWalkAll (length commentsDom) commentsDom isCommentNode 0 = Some [3, 6, 7, 8, 9]
   \<and> (\<exists>d'. stripCommentsStage exampleMatchers 0 commentsDom = Inr d'
        \<and> childNodes (d' ! 2) = [9, 3, 4] \<and> childNodes (d' ! 5) = []
        \<and> parentNode (d' ! 3) = Some 2 \<and> parentNode (d' ! 9) = Some 2
        \<and> parentNode (d' ! 6) = None \<and> parentNode (d' ! 7) = None
        \<and> parentNode (d' ! 8) = None)"
proof -
  have hd: "query commentsDom 0 (head exampleMatchers) = Inr (Some 2)"
    by (simp add: query_def commentsDom_defs exampleMatchers_def isElement_def hasTagName_def
        toLowerCase_def)
  have h: "2 < length commentsDom" "2 \<notin> set [3, 6, 7, 8, 9 :: nat]"
    by (simp_all add: commentsDom_defs)
  have dist: "distinct [3, 6, 7, 8, 9 :: nat]" by simp
  have a2: "attached commentsDom 2 3 \<and> distinct (childNodes (commentsDom ! 2))"
    by (simp add: attached_def commentsDom_defs)
  have a5: "attached commentsDom 5 6 \<and> attached commentsDom 5 7 \<and> attached commentsDom 5 8
      \<and> attached commentsDom 5 9 \<and> distinct (childNodes (commentsDom ! 5))"
    by (simp add: attached_def commentsDom_defs)
  have att: "\<forall>c\<in>set [3, 6, 7, 8, 9]. \<exists>p. attached commentsDom p c \<and> distinct (childNodes (commentsDom ! p))"
    using a2 a5 by auto
  from strip_comments_one_license_copy [OF hd h commentsDom_walk dist att]
  obtain d' where run: "stripCommentsStage exampleMatchers 0 commentsDom = Inr d'"
    and ch: "\<forall>m. childNodes (d' ! m) =
            (if m = 2 then rev [3, 9] else [])
              @ filter (\<lambda>x. \<not> (x \<in> set [3, 6, 7, 8, 9] \<and> parentNode (commentsDom ! x) = Some m))
                  (childNodes (commentsDom ! m))"
    and pa: "\<forall>c\<in>set [3, 6, 7, 8, 9]. parentNode (d' ! c) = (if c \<in> set [3, 9] then Some 2 else None)"
    unfolding commentsDom_firsts by blast
  from ch have c2: "childNodes (d' ! 2) = [9, 3, 4]"
    by (simp add: commentsDom_defs)
  from ch have c5: "childNodes (d' ! 5) = []"
    by (simp add: commentsDom_defs)
  from pa have p: "parentNode (d' ! 3) = Some 2" "parentNode (d' ! 9) = Some 2"
    "parentNode (d' ! 6) = None" "parentNode (d' ! 7) = None" "parentNode (d' ! 8) = None"
    by simp_all
  from commentsDom_walk run c2 c5 p show ?thesis by blast
qed

text \<open>
  C4. The end of an iteration of the loop of \<^verbatim>\<open>flatten\<close> in the root document (lines
  245-249, \<open>placeImport\<close> with \<open>isMainDoc\<close> true), reached by every import that is
  flattened: the import site \<open>n\<close>, an attached node, gives way to the children of the merged
  fragment \<open>bf\<close>. If the import site is not below the relocation target, exactly one node
  is created, a \<^verbatim>\<open>div\<close> with the attributes \<^verbatim>\<open>hidden\<close> and \<^verbatim>\<open>by-vulcanize\<close>; it
  takes the place of the import site in the child list of its parent, and the merged nodes
  are its children. If the import site is below the relocation target, no node is created
  and the merged nodes take the place of the import site themselves. In both cases the
  import site is detached, the fragment is left empty, and nothing else moves: every other
  node but a blank text right after the site keeps its parent, and every node keeps its name
  and its attributes. So the merged nodes have, above the new container or without it, the
  containers the import site had.
\<close>

theorem relocated_import_wrapped_once:
  assumes att: "attached d p n"
    and dist: "distinct (childNodes (d ! p))"
    and valid: "\<forall>c\<in>set (childNodes (d ! p)). c < length d"
    and nxt: "\<forall>c. nextSibling d p n = Some c \<and> isBlankTextNode d (Some c) \<longrightarrow> attached d p c"
    and site: "\<not> isDocumentFragment (d ! n)"
    and frag: "bf < length d" "isDocumentFragment (d ! bf)" "bf \<noteq> p"
      "bf \<notin> set (childNodes (d ! p))"
    and merged: "\<forall>c\<in>set (childNodes (d ! bf)). c < length d \<and> c \<noteq> n"
    and walk: "ancestorWalk d (Some n) moveTarget = Inr inside"
  shows "\<exists>d'. placeImport True moveTarget (Some n) bf d = Inr d'
      \<and> (if inside then
            length d' = length d
            \<and> childNodes (d' ! p) =
                concat (map (\<lambda>c. if c = n then childNodes (d ! bf)
                     else if nextSibling d p n = Some c \<and> isBlankTextNode d (Some c) then []
                     else [c]) (childNodes (d ! p)))
            \<and> (\<forall>c\<in>set (childNodes (d ! bf)). parentNode (d' ! c) = Some p)
          else
            length d' = Suc (length d)
            \<and> nodeName (d' ! length d) = ''div''
            \<and> attrs (d' ! length d) = [(''hidden'', []), (''by-vulcanize'', [])]
            \<and> parentNode (d' ! length d) = Some p
            \<and> childNodes (d' ! p) =
                concat (map (\<lambda>c. if c = n then [length d]
                     else if nextSibling d p n = Some c \<and> isBlankTextNode d (Some c) then []
                     else [c]) (childNodes (d ! p)))
            \<and> childNodes (d' ! length d) = childNodes (d ! bf)
            \<and> (\<forall>c\<in>set (childNodes (d ! bf)). parentNode (d' ! c) = Some (length d)))
      \<and> parentNode (d' ! n) = None \<and> childNodes (d' ! bf) = []
      \<and> (\<forall>m<length d. m \<noteq> n \<and> m \<notin> set (childNodes (d ! bf))
            \<and> \<not> (nextSibling d p n = Some m \<and> isBlankTextNode d (Some m))
            \<longrightarrow> parentNode (d' ! m) = parentNode (d ! m))
      \<and> (\<forall>m<length d. nodeName (d' ! m) = nodeName (d ! m) \<and> attrs (d' ! m) = attrs (d ! m))"
proof (cases inside)
  case True
  have det: "\<not> isDocumentFragment (d ! bf) \<longrightarrow> parentNode (d ! bf) = None"
    using frag(2) by simp
  have nn: "newNodesOf d bf = childNodes (d ! bf)" using frag(2) by (simp add: newNodesOf_def)
  from att have n: "n < length d" by (simp add: attached_def)
  from removeElementAndNewline_replace [OF att dist nxt frag(1) frag(3) frag(4) det]
  obtain d' where r: "removeElementAndNewline (Some n) (Some bf) d = Inr d'"
    and l: "length d' = length d"
    and c: "childNodes (d' ! p) =
          concat (map (\<lambda>c. if c = n then childNodes (d ! bf)
                           else if nextSibling d p n = Some c \<and> isBlankTextNode d (Some c) then []
                           else [c]) (childNodes (d ! p)))"
    and o: "\<forall>m. m \<noteq> p \<longrightarrow> childNodes (d' ! m) =
            (if isDocumentFragment (d ! bf) \<and> m = bf then [] else childNodes (d ! m))"
    and pa: "\<forall>m<length d. parentNode (d' ! m) =
            (if m = n then None
             else if m \<in> set (childNodes (d ! bf)) then Some p
             else if nextSibling d p n = Some m \<and> isBlankTextNode d (Some m) then None
             else parentNode (d ! m))"
    and f: "\<forall>m. nodeName (d' ! m) = nodeName (d ! m) \<and> attrs (d' ! m) = attrs (d ! m)
            \<and> tagName (d' ! m) = tagName (d ! m) \<and> nodeValue (d' ! m) = nodeValue (d ! m)"
    unfolding nn by blast
  have run: "placeImport True moveTarget (Some n) bf d = Inr d'"
    using walk True r by (simp add: placeImport_def)
  from pa n have pn: "parentNode (d' ! n) = None" by simp
  from o frag(2,3) have cb: "childNodes (d' ! bf) = []" by simp
  have pc: "\<forall>c\<in>set (childNodes (d ! bf)). parentNode (d' ! c) = Some p"
    using pa merged by simp
  have fr: "\<forall>m<length d. m \<noteq> n \<and> m \<notin> set (childNodes (d ! bf))
            \<and> \<not> (nextSibling d p n = Some m \<and> isBlankTextNode d (Some m))
            \<longrightarrow> parentNode (d' ! m) = parentNode (d ! m)"
    using pa by simp
  have fl: "\<forall>m<length d. nodeName (d' ! m) = nodeName (d ! m) \<and> attrs (d' ! m) = attrs (d ! m)"
    using f by simp
  from run l c pc pn cb fr fl True show ?thesis by simp
next
  case False
  let ?h = "length d"
  from att have n: "n < length d" and p: "p < length d" by (simp_all add: attached_def)
  from hide_effect [OF att dist valid nxt site]
  obtain d5 where h5: "hide (Some n) d = Inr d5"
    and l5: "length d5 = Suc (length d)"
    and cp5: "childNodes (d5 ! p) =
          concat (map (\<lambda>c. if c = n then [?h]
                           else if nextSibling d p n = Some c \<and> isBlankTextNode d (Some c) then []
                           else [c]) (childNodes (d ! p)))"
    and ch5: "childNodes (d5 ! ?h) = [n]"
    and ph5: "parentNode (d5 ! ?h) = Some p"
    and pn5: "parentNode (d5 ! n) = Some ?h"
    and nm5: "nodeName (d5 ! ?h) = ''div''"
    and at5: "attrs (d5 ! ?h) = [(''hidden'', []), (''by-vulcanize'', [])]"
    and co5: "\<forall>m<length d. m \<noteq> p \<longrightarrow> childNodes (d5 ! m) = childNodes (d ! m)"
    and no5: "\<forall>m<length d. nodeName (d5 ! m) = nodeName (d ! m) \<and> attrs (d5 ! m) = attrs (d ! m)"
    and pa5: "\<forall>m<length d. m \<noteq> n \<longrightarrow>
            \<not> (nextSibling d p n = Some m \<and> isBlankTextNode d (Some m)) \<longrightarrow>
            parentNode (d5 ! m) = parentNode (d ! m)"
    by blast
  have bn: "bf \<noteq> n" using frag(2) site by auto
  have att5: "attached d5 ?h n" using n l5 pn5 ch5 by (simp add: attached_def)
  have dist5: "distinct (childNodes (d5 ! ?h))" using ch5 by simp
  have ns5: "nextSibling d5 ?h n = None" by (simp add: nextSibling_def ch5 at_def)
  have nxt5: "\<forall>c. nextSibling d5 ?h n = Some c \<and> isBlankTextNode d5 (Some c) \<longrightarrow> attached d5 ?h c"
    by (simp add: ns5)
  have b5: "bf < length d5" "bf \<noteq> ?h" "bf \<notin> set (childNodes (d5 ! ?h))"
    using frag(1) l5 bn ch5 by simp_all
  have fr5: "isDocumentFragment (d5 ! bf)"
    using frag(1,2) no5 by (simp add: isDocumentFragment_def)
  have det5: "\<not> isDocumentFragment (d5 ! bf) \<longrightarrow> parentNode (d5 ! bf) = None"
    using fr5 by simp
  have cb5: "childNodes (d5 ! bf) = childNodes (d ! bf)" using co5 frag(1,3) by simp
  have nn5: "newNodesOf d5 bf = childNodes (d ! bf)" using fr5 cb5 by (simp add: newNodesOf_def)
  from removeElementAndNewline_replace [OF att5 dist5 nxt5 b5 det5]
  obtain d6 where r6: "removeElementAndNewline (Some n) (Some bf) d5 = Inr d6"
    and l6: "length d6 = length d5"
    and c6: "childNodes (d6 ! ?h) =
          concat (map (\<lambda>c. if c = n then childNodes (d ! bf)
                           else if nextSibling d5 ?h n = Some c \<and> isBlankTextNode d5 (Some c) then []
                           else [c]) (childNodes (d5 ! ?h)))"
    and o6: "\<forall>m. m \<noteq> ?h \<longrightarrow> childNodes (d6 ! m) =
            (if isDocumentFragment (d5 ! bf) \<and> m = bf then [] else childNodes (d5 ! m))"
    and p6: "\<forall>m<length d5. parentNode (d6 ! m) =
            (if m = n then None
             else if m \<in> set (childNodes (d ! bf)) then Some ?h
             else if nextSibling d5 ?h n = Some m \<and> isBlankTextNode d5 (Some m) then None
             else parentNode (d5 ! m))"
    and f6: "\<forall>m. nodeName (d6 ! m) = nodeName (d5 ! m) \<and> attrs (d6 ! m) = attrs (d5 ! m)
            \<and> tagName (d6 ! m) = tagName (d5 ! m) \<and> nodeValue (d6 ! m) = nodeValue (d5 ! m)"
    unfolding nn5 by blast
  have run: "placeImport True moveTarget (Some n) bf d = Inr d6"
    using walk False h5 r6 by (simp add: placeImport_def)
  have hnot: "?h \<notin> set (childNodes (d ! bf))" using merged by auto
  have g1: "length d6 = Suc (length d)" using l6 l5 by simp
  have g2: "nodeName (d6 ! ?h) = ''div''" "attrs (d6 ! ?h) = [(''hidden'', []), (''by-vulcanize'', [])]"
    using f6 nm5 at5 by simp_all
  have g3: "parentNode (d6 ! ?h) = Some p"
    using p6 l5 n hnot ph5 by (simp add: ns5)
  have g4: "childNodes (d6 ! p) =
          concat (map (\<lambda>c. if c = n then [?h]
                           else if nextSibling d p n = Some c \<and> isBlankTextNode d (Some c) then []
                           else [c]) (childNodes (d ! p)))"
    using o6 p frag(3) cp5 by simp
  have g5: "childNodes (d6 ! ?h) = childNodes (d ! bf)" using c6 ch5 by simp
  have g6: "\<forall>c\<in>set (childNodes (d ! bf)). parentNode (d6 ! c) = Some ?h"
  proof
    fix c assume c: "c \<in> set (childNodes (d ! bf))"
    with merged have "c < length d5" "c \<noteq> n" using l5 by auto
    with p6 c show "parentNode (d6 ! c) = Some ?h" by simp
  qed
  have g7: "parentNode (d6 ! n) = None" using p6 n l5 by simp
  have g8: "childNodes (d6 ! bf) = []" using o6 b5(2) fr5 by simp
  have g9: "\<forall>m<length d. m \<noteq> n \<and> m \<notin> set (childNodes (d ! bf))
            \<and> \<not> (nextSibling d p n = Some m \<and> isBlankTextNode d (Some m))
            \<longrightarrow> parentNode (d6 ! m) = parentNode (d ! m)"
  proof (intro allI impI)
    fix m assume m: "m < length d" and c: "m \<noteq> n \<and> m \<notin> set (childNodes (d ! bf))
            \<and> \<not> (nextSibling d p n = Some m \<and> isBlankTextNode d (Some m))"
    from m l5 have "m < length d5" by simp
    with p6 c have "parentNode (d6 ! m) = parentNode (d5 ! m)" by (simp add: ns5)
    also from pa5 m c have "\<dots> = parentNode (d ! m)" by simp
    finally show "parentNode (d6 ! m) = parentNode (d ! m)" .
  qed
  have g10: "\<forall>m<length d. nodeName (d6 ! m) = nodeName (d ! m) \<and> attrs (d6 ! m) = attrs (d ! m)"
    using f6 no5 by simp
  from run g1 g2 g3 g4 g5 g6 g7 g8 g9 g10 False show ?thesis by simp
qed


theorem relocated_import_wrapped_once_witness:
  "ancestorWalk placeDom (Some 5) 4 = Inr False
   \<and> (\<exists>d'. placeImport True 4 (Some 5) 7 placeDom = Inr d'
        \<and> length d' = 11
        \<and> nodeName (d' ! 10) = ''div''
        \<and> attrs (d' ! 10) = [(''hidden'', []), (''by-vulcanize'', [])]
        \<and> parentNode (d' ! 10) = Some 3
        \<and> childNodes (d' ! 3) = [4, 10]
        \<and> childNodes (d' ! 10) = [8, 9]
        \<and> parentNode (d' ! 8) = Some 10 \<and> parentNode (d' ! 9) = Some 10
        \<and> parentNode (d' ! 5) = None)
   \<and> ancestorWalk placeInsideDom (Some 5) 4 = Inr True
   \<and> (\<exists>d'. placeImport True 4 (Some 5) 7 placeInsideDom = Inr d'
        \<and> length d' = 10
        \<and> childNodes (d' ! 4) = [8, 9]
        \<and> parentNode (d' ! 8) = Some 4 \<and> parentNode (d' ! 9) = Some 4
        \<and> parentNode (d' ! 4) = Some 3
        \<and> attrs (d' ! 4) = [(''hidden'', []), (''by-vulcanize'', [])]
        \<and> parentNode (d' ! 5) = None \<and> childNodes (d' ! 7) = [])
   \<and> flatten exampleEnv exampleMatchers exampleVulcan
        (Tree (Some ''index.html'') 0 [4] [Tree (Some ''a.html'') 5 [] []]) True plainDom
      = Inr plainFlat"
proof -
  have outside: "ancestorWalk placeDom (Some 5) 4 = Inr False
   \<and> (\<exists>d'. placeImport True 4 (Some 5) 7 placeDom = Inr d'
        \<and> length d' = 11
        \<and> nodeName (d' ! 10) = ''div''
        \<and> attrs (d' ! 10) = [(''hidden'', []), (''by-vulcanize'', [])]
        \<and> parentNode (d' ! 10) = Some 3
        \<and> childNodes (d' ! 3) = [4, 10]
        \<and> childNodes (d' ! 10) = [8, 9]
        \<and> parentNode (d' ! 8) = Some 10 \<and> parentNode (d' ! 9) = Some 10
        \<and> parentNode (d' ! 5) = None)"
  proof -
    have att: "attached placeDom 3 5" by (simp add: attached_def placeDom_defs)
    have dist: "distinct (childNodes (placeDom ! 3))" by (simp add: placeDom_defs)
    have valid: "\<forall>c\<in>set (childNodes (placeDom ! 3)). c < length placeDom"
      by (simp add: placeDom_defs)
    have ns: "nextSibling placeDom 3 5 = Some 6"
      by (simp add: nextSibling_def at_def placeDom_defs)
    have bl: "isBlankTextNode placeDom (Some 6)"
      by (simp add: isBlankTextNode_def isTextNode_def getTextContent_def isSpace_def placeDom_defs)
    have nxt: "\<forall>c. nextSibling placeDom 3 5 = Some c \<and> isBlankTextNode placeDom (Some c)
        \<longrightarrow> attached placeDom 3 c"
    proof (intro allI impI)
      fix c assume "nextSibling placeDom 3 5 = Some c \<and> isBlankTextNode placeDom (Some c)"
      with ns have "c = 6" by simp
      then show "attached placeDom 3 c" by (simp add: attached_def placeDom_defs)
    qed
    have site: "\<not> isDocumentFragment (placeDom ! 5)"
      by (simp add: isDocumentFragment_def placeDom_defs)
    have frag: "7 < length placeDom" "isDocumentFragment (placeDom ! 7)" "(7::nat) \<noteq> 3"
      "7 \<notin> set (childNodes (placeDom ! 3))"
      by (simp_all add: isDocumentFragment_def placeDom_defs)
    have cb: "childNodes (placeDom ! 7) = [8, 9]" by (simp add: placeDom_defs)
    have merged: "\<forall>c\<in>set (childNodes (placeDom ! 7)). c < length placeDom \<and> c \<noteq> 5"
      by (simp add: cb) (simp add: placeDom_defs)
    have walk: "ancestorWalk placeDom (Some 5) 4 = Inr False"
      by (simp add: ancestorWalk_def placeDom_defs)
    have len: "length placeDom = 10" by (simp add: placeDom_defs)
    have sub: "concat (map (\<lambda>c. if c = 5 then [10]
                       else if nextSibling placeDom 3 5 = Some c \<and> isBlankTextNode placeDom (Some c) then []
                       else [c]) (childNodes (placeDom ! 3))) = [4, 10]"
      unfolding ns using bl by (simp add: placeDom_defs)
    from relocated_import_wrapped_once [OF att dist valid nxt site frag merged walk]
    obtain d' where "placeImport True 4 (Some 5) 7 placeDom = Inr d'
          \<and> length d' = 11
          \<and> nodeName (d' ! 10) = ''div''
          \<and> attrs (d' ! 10) = [(''hidden'', []), (''by-vulcanize'', [])]
          \<and> parentNode (d' ! 10) = Some 3
          \<and> childNodes (d' ! 3) = [4, 10]
          \<and> childNodes (d' ! 10) = [8, 9]
          \<and> parentNode (d' ! 8) = Some 10 \<and> parentNode (d' ! 9) = Some 10
          \<and> parentNode (d' ! 5) = None"
      unfolding if_False cb len sub by auto
    with walk show ?thesis by blast
  qed
  have inside: "ancestorWalk placeInsideDom (Some 5) 4 = Inr True
   \<and> (\<exists>d'. placeImport True 4 (Some 5) 7 placeInsideDom = Inr d'
        \<and> length d' = 10
        \<and> childNodes (d' ! 4) = [8, 9]
        \<and> parentNode (d' ! 8) = Some 4 \<and> parentNode (d' ! 9) = Some 4
        \<and> parentNode (d' ! 4) = Some 3
        \<and> attrs (d' ! 4) = [(''hidden'', []), (''by-vulcanize'', [])]
        \<and> parentNode (d' ! 5) = None \<and> childNodes (d' ! 7) = [])"
  proof -
    have att: "attached placeInsideDom 4 5" by (simp add: attached_def placeDom_defs)
    have c4: "childNodes (placeInsideDom ! 4) = [5]" by (simp add: placeDom_defs)
    have dist: "distinct (childNodes (placeInsideDom ! 4))" by (simp add: c4)
    have valid: "\<forall>c\<in>set (childNodes (placeInsideDom ! 4)). c < length placeInsideDom"
      by (simp add: c4) (simp add: placeDom_defs)
    have ns: "nextSibling placeInsideDom 4 5 = None"
      by (simp add: nextSibling_def at_def c4)
    have nxt: "\<forall>c. nextSibling placeInsideDom 4 5 = Some c \<and> isBlankTextNode placeInsideDom (Some c)
        \<longrightarrow> attached placeInsideDom 4 c"
      by (simp add: ns)
    have site: "\<not> isDocumentFragment (placeInsideDom ! 5)"
      by (simp add: isDocumentFragment_def placeDom_defs)
    have frag: "7 < length placeInsideDom" "isDocumentFragment (placeInsideDom ! 7)" "(7::nat) \<noteq> 4"
      "7 \<notin> set (childNodes (placeInsideDom ! 4))"
      by (simp_all add: isDocumentFragment_def placeDom_defs)
    have cb: "childNodes (placeInsideDom ! 7) = [8, 9]" by (simp add: placeDom_defs)
    have merged: "\<forall>c\<in>set (childNodes (placeInsideDom ! 7)). c < length placeInsideDom \<and> c \<noteq> 5"
      by (simp add: cb) (simp add: placeDom_defs)
    have walk: "ancestorWalk placeInsideDom (Some 5) 4 = Inr True"
      by (simp add: ancestorWalk_def placeDom_defs)
    have len: "length placeInsideDom = 10" by (simp add: placeDom_defs)
    have p4: "parentNode (placeInsideDom ! 4) = Some 3"
      and a4: "attrs (placeInsideDom ! 4) = [(''hidden'', []), (''by-vulcanize'', [])]"
      by (simp_all add: placeDom_defs)
    from relocated_import_wrapped_once [OF att dist valid nxt site frag merged walk]
    obtain d' where r: "placeImport True 4 (Some 5) 7 placeInsideDom = Inr d'"
      and l: "length d' = 10"
      and c: "childNodes (d' ! 4) = [8, 9]"
      and pc: "\<forall>c\<in>set [8, 9]. parentNode (d' ! c) = Some 4"
      and pn: "parentNode (d' ! 5) = None" and cf: "childNodes (d' ! 7) = []"
      and fr: "\<forall>m<10. m \<noteq> 5 \<and> m \<notin> set [8, 9]
            \<and> \<not> (None = Some m \<and> isBlankTextNode placeInsideDom (Some m))
            \<longrightarrow> parentNode (d' ! m) = parentNode (placeInsideDom ! m)"
      and fl: "\<forall>m<10. nodeName (d' ! m) = nodeName (placeInsideDom ! m)
            \<and> attrs (d' ! m) = attrs (placeInsideDom ! m)"
      unfolding if_True cb len ns c4 by auto
    from pc have p89: "parentNode (d' ! 8) = Some 4" "parentNode (d' ! 9) = Some 4" by simp_all
    from fr have "parentNode (d' ! 4) = parentNode (placeInsideDom ! 4)" by simp
    with p4 have p4': "parentNode (d' ! 4) = Some 3" by simp
    from fl a4 have a4': "attrs (d' ! 4) = [(''hidden'', []), (''by-vulcanize'', [])]" by simp
    from walk r l c p89 p4' a4' pn cf show ?thesis by blast
  qed
  have whole: "flatten exampleEnv exampleMatchers exampleVulcan
        (Tree (Some ''index.html'') 0 [4] [Tree (Some ''a.html'') 5 [] []]) True plainDom
      = Inr plainFlat"
    by code_simp
  from outside inside whole show ?thesis by blast
qed

text \<open>
  C4, where the import site ends up in more than one hidden container: a document whose
  import site stands in a hidden container of its own, node 4, a \<^verbatim>\<open>div\<close> with
  \<^verbatim>\<open>hidden\<close> and \<^verbatim>\<open>by-vulcanize\<close>. The relocation target of the run is another
  node, created as node 11, which stays empty and is taken out again at the end.
  \<^verbatim>\<open>flatten\<close> wraps the site once more, and the merged node 10 ends up inside two such
  containers, node 14 inside node 4.
\<close>

theorem hidden_import_wrapped_twice:
  "wrappedDom ! 4 = mkElement ''div'' [(''hidden'', []), (''by-vulcanize'', [])] [5] 3
   \<and> parentNode (wrappedDom ! 5) = Some 4
   \<and> flatten exampleEnv exampleMatchers exampleVulcan
        (Tree (Some ''index.html'') 0 [5] [Tree (Some ''a.html'') 6 [] []]) True wrappedDom
      = Inr wrappedFlat
   \<and> parentNode (wrappedFlat ! 10) = Some 14
   \<and> wrappedFlat ! 14 = hiddenDiv\<lparr>childNodes := [10], parentNode := Some 4\<rparr>
   \<and> wrappedFlat ! 4 = mkElement ''div'' [(''hidden'', []), (''by-vulcanize'', [])] [14] 3"
  by code_simp

text \<open>
  C5. \<^verbatim>\<open>inlineScripts\<close>, for the scripts the matcher for external scripts finds (distinct
  element nodes, each with a \<^verbatim>\<open>src\<close> that resolves against the base href): when every
  request that is made is answered, the stage succeeds, and each script is settled as
  follows. If the \<^verbatim>\<open>src\<close> is excluded by policy, the element is as before. Otherwise the
  loader was asked for the resolved address; with a truthy body the element has lost its
  \<^verbatim>\<open>src\<close> attribute and has one child, a text node holding the encoded body; with a
  falsy body the element is as before, and the stage still succeeds.
\<close>

theorem inlineScripts_per_script:
  assumes scripts: "queryAll d doc (JS_SRC M) = Inr scripts"
    and dist: "distinct scripts"
    and valid: "\<forall>s\<in>set scripts. s < length d \<and> \<not> isTextNode (d ! s) \<and> \<not> isCommentNode (d ! s)"
    and srcs: "\<forall>s\<in>set scripts. \<exists>src uri. getAttribute (d ! s) ''src'' = Some src
        \<and> urlResolve E baseHref src = Inr uri
        \<and> (\<not> isExcludedHref E v src \<longrightarrow> (\<exists>c. request E uri = Inr c))"
  shows "\<exists>d'. inlineScripts E M v doc baseHref d = Inr d'
      \<and> (\<forall>s\<in>set scripts. \<exists>src uri. getAttribute (d ! s) ''src'' = Some src
            \<and> urlResolve E baseHref src = Inr uri
            \<and> settled E (d ! s) d' s (if isExcludedHref E v src then None else Some uri))"
proof -
  from srcs have "\<forall>s\<in>set scripts. \<exists>src uri. getAttribute (d ! s) ''src'' = Some src
      \<and> urlResolve E baseHref src = Inr uri" by blast
  from scriptRequests_ok [OF this, of v]
  obtain rs where rs: "scriptRequests E v baseHref d scripts = Inr rs" "map fst rs = scripts"
    "\<forall>(s, u)\<in>set rs. \<exists>src uri. getAttribute (d ! s) ''src'' = Some src
        \<and> urlResolve E baseHref src = Inr uri
        \<and> u = (if isExcludedHref E v src then None else Some uri)" by blast
  have mem: "s \<in> set scripts" if "(s, u) \<in> set rs" for s u
  proof -
    from that have "fst (s, u) \<in> set (map fst rs)" by (simp only: set_map) (rule imageI)
    with rs(2) show ?thesis by simp
  qed
  have a1: "distinct (map fst rs)" using dist rs(2) by simp
  have a2: "\<forall>(s, u)\<in>set rs. s < length d \<and> \<not> isTextNode (d ! s) \<and> \<not> isCommentNode (d ! s)"
    using valid mem by blast
  have a3: "\<forall>(s, u)\<in>set rs. \<forall>uri. u = Some uri \<longrightarrow> (\<exists>c. request E uri = Inr c)"
  proof (clarify)
    fix s uri assume su: "(s, Some uri) \<in> set rs"
    with rs(3) obtain src uri' where x: "getAttribute (d ! s) ''src'' = Some src"
      "urlResolve E baseHref src = Inr uri'"
      "Some uri = (if isExcludedHref E v src then None else Some uri')" by fastforce
    then have ne: "\<not> isExcludedHref E v src" and eq: "uri = uri'" by (auto split: if_splits)
    from mem [OF su] srcs x(1,2) ne have "\<exists>c. request E uri' = Inr c" by fastforce
    with eq show "\<exists>c. request E uri = Inr c" by simp
  qed
  from scriptResponses_effect [OF a1 a2 a3]
  obtain d' where d': "scriptResponses E rs d = Inr d'"
    "\<forall>(s, u)\<in>set rs. settled E (d ! s) d' s u" by blast
  have run: "inlineScripts E M v doc baseHref d = Inr d'"
    using scripts rs(1) d'(1) by (simp add: inlineScripts_def)
  have "\<exists>src uri. getAttribute (d ! s) ''src'' = Some src
            \<and> urlResolve E baseHref src = Inr uri
            \<and> settled E (d ! s) d' s (if isExcludedHref E v src then None else Some uri)"
    if "s \<in> set scripts" for s
  proof -
    from that rs(2) have "s \<in> fst ` set rs" by (metis set_map)
    then obtain u where su: "(s, u) \<in> set rs" by force
    with rs(3) obtain src uri where x: "getAttribute (d ! s) ''src'' = Some src"
      "urlResolve E baseHref src = Inr uri"
      "u = (if isExcludedHref E v src then None else Some uri)" by fastforce
    from d'(2) su have "settled E (d ! s) d' s u" by fastforce
    with x show ?thesis by blast
  qed
  with run show ?thesis by blast
qed

theorem inlineScripts_per_script_witness:
  "queryAll scriptsDom 0 (JS_SRC exampleMatchers) = Inr [4, 5, 6]
   \<and> (\<exists>d'. inlineScripts exampleEnv exampleMatchers exampleVulcan 0 (Some ''index.html'') scriptsDom = Inr d'
        \<and> inlined exampleEnv (scriptsDom ! 4) d' 4 ''console.log(1)''
        \<and> d' ! 5 = scriptsDom ! 5 \<and> d' ! 6 = scriptsDom ! 6)"
proof -
  have dist: "distinct [4, 5, 6 :: nat]" by simp
  have valid: "\<forall>s\<in>set [4, 5, 6]. s < length scriptsDom \<and> \<not> isTextNode (scriptsDom ! s)
      \<and> \<not> isCommentNode (scriptsDom ! s)"
    by (simp add: scriptsDom_def example_defs isTextNode_def isCommentNode_def)
  have srcs: "\<forall>s\<in>set [4, 5, 6]. \<exists>src uri. getAttribute (scriptsDom ! s) ''src'' = Some src
        \<and> urlResolve exampleEnv (Some ''index.html'') src = Inr uri
        \<and> (\<not> isExcludedHref exampleEnv exampleVulcan src \<longrightarrow> (\<exists>c. request exampleEnv uri = Inr c))"
    by (simp add: scriptsDom_def example_defs getAttribute_def)
  from inlineScripts_per_script [OF scriptsDom_query dist valid srcs]
  obtain d' where run: "inlineScripts exampleEnv exampleMatchers exampleVulcan 0 (Some ''index.html'') scriptsDom = Inr d'"
    and each: "\<forall>s\<in>set [4, 5, 6]. \<exists>src uri. getAttribute (scriptsDom ! s) ''src'' = Some src
            \<and> urlResolve exampleEnv (Some ''index.html'') src = Inr uri
            \<and> settled exampleEnv (scriptsDom ! s) d' s
                 (if isExcludedHref exampleEnv exampleVulcan src then None else Some uri)"
    by blast
  have g4: "getAttribute (scriptsDom ! 4) ''src'' = Some ''x.js''"
    and g5: "getAttribute (scriptsDom ! 5) ''src'' = Some ''vendor/v.js''"
    and g6: "getAttribute (scriptsDom ! 6) ''src'' = Some ''empty.js''"
    by (simp_all add: scriptsDom_def example_defs getAttribute_def)
  have u: "\<And>src. urlResolve exampleEnv (Some ''index.html'') src = Inr src"
    by (simp add: exampleEnv_def)
  have x4: "\<not> isExcludedHref exampleEnv exampleVulcan ''x.js''"
    and x5: "isExcludedHref exampleEnv exampleVulcan ''vendor/v.js''"
    and x6: "\<not> isExcludedHref exampleEnv exampleVulcan ''empty.js''"
    by (simp_all add: isExcludedHref_def example_defs)
  from each have "settled exampleEnv (scriptsDom ! 4) d' 4 (Some ''x.js'')"
    using g4 u x4 by auto
  then have r4: "inlined exampleEnv (scriptsDom ! 4) d' 4 ''console.log(1)''"
    by (simp add: settled_def exampleEnv_def truthy_def)
  from each have "settled exampleEnv (scriptsDom ! 5) d' 5 None"
    using g5 u x5 by auto
  then have r5: "d' ! 5 = scriptsDom ! 5" by (simp add: settled_def)
  from each have "settled exampleEnv (scriptsDom ! 6) d' 6 (Some ''empty.js'')"
    using g6 u x6 by auto
  then have r6: "d' ! 6 = scriptsDom ! 6"
    by (simp add: settled_def exampleEnv_def truthy_def)
  from scriptsDom_query run r4 r5 r6 show ?thesis by blast
qed

text \<open>
  C6. The stage of \<^verbatim>\<open>_process\<close> that flattens the root document, when it succeeds:
  \<open>d1\<close> is the store \<^verbatim>\<open>flatten\<close> returns, \<open>metaNode\<close> what the matcher for the charset
  meta element finds in it. If it finds none, the head exists and, after the links of the
  added imports, exactly one node is created: a \<^verbatim>\<open>meta\<close> element with the one attribute
  \<^verbatim>\<open>charset="UTF-8"\<close>, which is the first child of the head. If it finds one, no meta
  element is created: the store is the flattened one, or the flattened one with the links
  of the added imports put first in the head, every other node as it was.
\<close>

theorem meta_charset_ensured:
  assumes fl: "flatten E M v tree True d = Inr d1"
    and qm: "query d1 (ast tree) (meta M) = Inr metaNode"
    and qh: "query d1 (ast tree) (head M) = Inr headNode"
    and hv: "\<forall>h. headNode = Some h \<longrightarrow> h < length d1"
    and run: "flattenStage E M v tree d = Inr d2"
  shows "(metaNode = None \<longrightarrow>
            (\<exists>h d'. headNode = Some h \<and> linksAdded h (addedImports v) d1 d'
               \<and> length d2 = Suc (length d')
               \<and> d2 ! length d' = metaCharset\<lparr>parentNode := Some h\<rparr>
               \<and> d2 ! h = (d' ! h)\<lparr>childNodes := length d' # childNodes (d' ! h)\<rparr>
               \<and> (\<forall>n<length d'. n \<noteq> h \<longrightarrow> d2 ! n = d' ! n)))
       \<and> (metaNode \<noteq> None \<longrightarrow>
            (addedImports v = [] \<and> d2 = d1)
            \<or> (\<exists>h. headNode = Some h \<and> linksAdded h (addedImports v) d1 d2))"
proof -
  from run fl qm qh
  have stage: "bind (addImports headNode (addedImports v) d1) (ensureMeta metaNode headNode) = Inr d2"
    by (simp add: flattenStage_def)
  show ?thesis
  proof (cases headNode)
    case None
    from stage obtain d' where a: "addImports None (addedImports v) d1 = Inr d'"
      and e: "ensureMeta metaNode None d' = Inr d2"
      unfolding None by (cases "addImports None (addedImports v) d1") simp_all
    from addImports_None [OF a] have nil: "addedImports v = []" and d': "d' = d1" by simp_all
    from e have "metaNode \<noteq> None \<and> d2 = d'"
      by (cases metaNode) (simp_all add: ensureMeta_def prepend_def alloc_def Let_def)
    with nil d' show ?thesis by auto
  next
    case (Some h)
    with hv have h: "h < length d1" by simp
    from addImports_effect [OF h, of "addedImports v"]
    obtain d' where a: "addImports (Some h) (addedImports v) d1 = Inr d'"
      and l: "linksAdded h (addedImports v) d1 d'" by blast
    from l h have h': "h < length d'" by (simp add: linksAdded_def)
    from stage a Some have e: "ensureMeta metaNode (Some h) d' = Inr d2" by simp
    show ?thesis
    proof (cases metaNode)
      case None
      with e have d2: "d2 = pushFirst h metaCharset d'" by (simp add: ensureMeta_None [OF h'])
      note p = pushFirst_props [OF h', where nd = metaCharset]
      from p have "length d2 = Suc (length d')
               \<and> d2 ! length d' = metaCharset\<lparr>parentNode := Some h\<rparr>
               \<and> d2 ! h = (d' ! h)\<lparr>childNodes := length d' # childNodes (d' ! h)\<rparr>
               \<and> (\<forall>n<length d'. n \<noteq> h \<longrightarrow> d2 ! n = d' ! n)"
        unfolding d2 by simp
      with None Some l show ?thesis by blast
    next
      case (Some m)
      with e have "d2 = d'" by (simp add: ensureMeta_def)
      with Some \<open>headNode = Some h\<close> l show ?thesis by simp
    qed
  qed
qed

theorem meta_charset_ensured_witness:
  "\<exists>d2. flatten exampleEnv exampleMatchers (exampleVulcan\<lparr>addedImports := [''extra.html'']\<rparr>)
          (Tree (Some ''index.html'') 0 [] []) True metaDom = Inr flatMetaDom
      \<and> query flatMetaDom 0 (meta exampleMatchers) = Inr None
      \<and> flattenStage exampleEnv exampleMatchers (exampleVulcan\<lparr>addedImports := [''extra.html'']\<rparr>)
          (Tree (Some ''index.html'') 0 [] []) metaDom = Inr d2
      \<and> length d2 = 8
      \<and> d2 ! 7 = metaCharset\<lparr>parentNode := Some 2\<rparr>
      \<and> d2 ! 6 = (linkNode ''extra.html'')\<lparr>parentNode := Some 2\<rparr>
      \<and> childNodes (d2 ! 2) = [7, 6, 4]"
proof -
  let ?v = "exampleVulcan\<lparr>addedImports := [''extra.html'']\<rparr>"
  let ?t = "Tree (Some ''index.html'') 0 [] []"
  from metaDom_stage obtain d2
    where run: "flattenStage exampleEnv exampleMatchers ?v ?t metaDom = Inr d2" by blast
  have fl: "flatten exampleEnv exampleMatchers ?v ?t True metaDom = Inr flatMetaDom"
    by (simp only: metaDom_flatten flatMetaDom_def)
  have qm: "query flatMetaDom (ast ?t) (meta exampleMatchers) = Inr None"
    by (simp add: flatMetaDom_meta)
  have qh: "query flatMetaDom (ast ?t) (head exampleMatchers) = Inr (Some 2)"
    by (simp add: flatMetaDom_head)
  have hv: "\<forall>h. Some (2::nat) = Some h \<longrightarrow> h < length flatMetaDom"
    by (simp add: flatMetaDom_def metaDom_def)
  from meta_charset_ensured [OF fl qm qh hv run]
  obtain d' where l: "linksAdded 2 (addedImports ?v) flatMetaDom d'"
    and len: "length d2 = Suc (length d')"
    and m: "d2 ! length d' = metaCharset\<lparr>parentNode := Some 2\<rparr>"
    and hd: "d2 ! 2 = (d' ! 2)\<lparr>childNodes := length d' # childNodes (d' ! 2)\<rparr>"
    and rest: "\<forall>n<length d'. n \<noteq> 2 \<longrightarrow> d2 ! n = d' ! n"
    by auto
  have l6: "length flatMetaDom = 6" by (simp add: flatMetaDom_def metaDom_def)
  from l have len': "length d' = 7" by (simp add: linksAdded_def l6)
  from l have c2: "childNodes (d' ! 2) = [6, 4]"
    by (simp add: linksAdded_def l6) (simp add: flatMetaDom_def metaDom_def mkElement_def)
  from l have "d' ! (length flatMetaDom + 0) = (linkNode ([''extra.html''] ! 0))\<lparr>parentNode := Some 2\<rparr>"
    unfolding linksAdded_def by simp
  then have n6: "d' ! 6 = (linkNode ''extra.html'')\<lparr>parentNode := Some 2\<rparr>" by (simp add: l6)
  from rest len' have "d2 ! 6 = d' ! 6" by simp
  with n6 have r6: "d2 ! 6 = (linkNode ''extra.html'')\<lparr>parentNode := Some 2\<rparr>" by simp
  from len len' have r1: "length d2 = 8" by simp
  from m len' have r2: "d2 ! 7 = metaCharset\<lparr>parentNode := Some 2\<rparr>" by simp
  from hd c2 len' have r3: "childNodes (d2 ! 2) = [7, 6, 4]" by simp
  from fl flatMetaDom_meta run r1 r2 r6 r3 show ?thesis by blast
qed




text \<open>
  C9. \<^verbatim>\<open>isDuplicateImport\<close> is true exactly when the href of the edge is falsy, absent
  or the empty text. An edge whose href is the empty text is elided by the loop of
  \<^verbatim>\<open>flatten\<close>: its iteration succeeds, the import site \<open>n\<close> (an attached node) and a
  blank text node right after it leave the child list of their parent, the parent reference
  of the site is cleared, no other child list changes and no node is created, so nothing of
  the imported tree is flattened or merged, whatever that tree holds and whatever the
  exclusion patterns are; the loop goes on from that store, the very store it goes on from
  for an edge whose href is absent.
\<close>

theorem empty_href_is_duplicate:
  assumes e: "href im = Some []"
    and site: "at sites (int i) = Some n"
    and att: "attached d p n"
    and dist: "distinct (childNodes (d ! p))"
    and nxt: "\<forall>x. nextSibling d p n = Some x \<and> isBlankTextNode d (Some x) \<longrightarrow> attached d p x"
  shows "isDuplicateImport im
      \<and> (\<forall>im'. isDuplicateImport im' = (href im' = None \<or> href im' = Some []))
      \<and> (\<exists>d'. flattenImports E M v b mt th sites (im # ims) i d =
                 flattenImports E M v b mt th sites ims (Suc i) d'
            \<and> length d' = length d
            \<and> childNodes (d' ! p) =
                filter (\<lambda>c. c \<noteq> n \<and> \<not> (nextSibling d p n = Some c \<and> isBlankTextNode d (Some c)))
                  (childNodes (d ! p))
            \<and> parentNode (d' ! n) = None
            \<and> (\<forall>m. m \<noteq> p \<longrightarrow> childNodes (d' ! m) = childNodes (d ! m))
            \<and> (\<forall>im'. href im' = None \<longrightarrow>
                  flattenImports E M v b mt th sites (im' # ims) i d =
                    flattenImports E M v b mt th sites ims (Suc i) d'))"
proof -
  have dup: "isDuplicateImport im" using e by (simp add: isDuplicateImport_iff)
  from removeElementAndNewline_effect [OF att dist] nxt
  obtain d' where r: "removeElementAndNewline (Some n) None d = Inr d'"
    and eff: "length d' = length d"
      "childNodes (d' ! p) =
          filter (\<lambda>c. c \<noteq> n \<and> \<not> (nextSibling d p n = Some c \<and> isBlankTextNode d (Some c)))
            (childNodes (d ! p))"
      "parentNode (d' ! n) = None"
      "\<forall>m. m \<noteq> p \<longrightarrow> childNodes (d' ! m) = childNodes (d ! m)"
    by blast
  have step: "flattenImports E M v b mt th sites (x # ims) i d =
      flattenImports E M v b mt th sites ims (Suc i) d'" if "isDuplicateImport x" for x
  proof -
    from that have "isDuplicateImport x \<or> isStrippedImport E v x = Inr True" by simp
    from step_elide [OF this] show ?thesis by (simp only: site r bind_Inr)
  qed
  have absent: "\<forall>im'. href im' = None \<longrightarrow>
        flattenImports E M v b mt th sites (im' # ims) i d =
          flattenImports E M v b mt th sites ims (Suc i) d'"
  proof (intro allI impI)
    fix im' :: tree
    assume "href im' = None"
    then have "isDuplicateImport im'" by (simp only: isDuplicateImport_iff) simp
    then show "flattenImports E M v b mt th sites (im' # ims) i d =
          flattenImports E M v b mt th sites ims (Suc i) d'" by (rule step)
  qed
  from dup isDuplicateImport_iff step [OF dup] eff absent show ?thesis by blast
qed

theorem empty_href_is_duplicate_witness:
  "href (Tree (Some []) 9 [] [Tree (Some ''b.html'') 9 [] []]) = Some []
   \<and> attached exampleDom 5 6
   \<and> nextSibling exampleDom 5 6 = Some 7 \<and> isBlankTextNode exampleDom (Some 7)
   \<and> childNodes (exampleDom ! 5) = [6, 7, 8]
   \<and> (\<exists>d'. flattenImports exampleEnv exampleMatchers exampleVulcan True 0 (Some ''index.html'') [6]
              [Tree (Some []) 9 [] [Tree (Some ''b.html'') 9 [] []]] 0 exampleDom = Inr d'
         \<and> length d' = length exampleDom \<and> childNodes (d' ! 5) = [8]
         \<and> parentNode (d' ! 6) = None)
   \<and> flatten exampleEnv exampleMatchers exampleVulcan
        (Tree (Some ''index.html'') 0 [4] [Tree (Some []) 7 [] [Tree (Some ''b.html'') 7 [] []]])
        True strippedDom
      = Inr strippedFlat"
proof -
  have whole: "flatten exampleEnv exampleMatchers exampleVulcan
        (Tree (Some ''index.html'') 0 [4] [Tree (Some []) 7 [] [Tree (Some ''b.html'') 7 [] []]])
        True strippedDom
      = Inr strippedFlat"
    by code_simp
  have e: "href (Tree (Some []) 9 [] [Tree (Some ''b.html'') 9 [] []]) = Some []" by simp
  have site: "at [6] (int 0) = Some (6::nat)" by (simp add: at_def)
  have att: "attached exampleDom 5 6" by (simp add: attached_def example_defs)
  have dist: "distinct (childNodes (exampleDom ! 5))" by (simp add: example_defs)
  have c5: "childNodes (exampleDom ! 5) = [6, 7, 8]" by (simp add: example_defs)
  have n7: "nextSibling exampleDom 5 6 = Some 7" by (simp add: nextSibling_def at_def example_defs)
  have nxt: "\<forall>x. nextSibling exampleDom 5 6 = Some x \<and> isBlankTextNode exampleDom (Some x)
      \<longrightarrow> attached exampleDom 5 x"
  proof (intro allI impI)
    fix x
    assume "nextSibling exampleDom 5 6 = Some x \<and> isBlankTextNode exampleDom (Some x)"
    with n7 have "x = 7" by simp
    then show "attached exampleDom 5 x" by (simp add: attached_def example_defs)
  qed
  have b7: "isBlankTextNode exampleDom (Some 7)"
    by (simp add: isBlankTextNode_def isTextNode_def getTextContent_def isSpace_def example_defs)
  have f: "filter (\<lambda>c. c \<noteq> 6 \<and> \<not> (nextSibling exampleDom 5 6 = Some c \<and> isBlankTextNode exampleDom (Some c)))
            (childNodes (exampleDom ! 5)) = [8]"
    using b7 by (simp add: n7 c5)
  from empty_href_is_duplicate [OF e site att dist nxt, where ims = "[]" and E = exampleEnv
      and M = exampleMatchers and v = exampleVulcan and b = True and mt = 0
      and th = "Some ''index.html''"]
  obtain d' where "flattenImports exampleEnv exampleMatchers exampleVulcan True 0 (Some ''index.html'') [6]
              [Tree (Some []) 9 [] [Tree (Some ''b.html'') 9 [] []]] 0 exampleDom = Inr d'"
    "length d' = length exampleDom" "childNodes (d' ! 5) = [8]" "parentNode (d' ! 6) = None"
    unfolding f by auto
  with e att n7 b7 c5 whole show ?thesis by blast
qed

text \<open>
  C10. \<^verbatim>\<open>getImplicitExcludes\<close> returns no list: for every list of excludes the call
  throws a ReferenceError where it constructs the analyzer (line 365), before the loop over
  the excludes. The loop itself, had it run, passes over an exclude that ends in
  \<^verbatim>\<open>.js\<close>, in \<^verbatim>\<open>.css\<close> or in \<^verbatim>\<open>/\<close> (\<open>suffix_excludes_not_analyzed\<close>), and
  over more: \<^verbatim>\<open>lib/threejs\<close> ends in none of the three, yet the loop does not analyze
  it, because the dot of \<^verbatim>\<open>/.js$/\<close> matches the \<^verbatim>\<open>e\<close>. An exclude the patterns do
  not match is analyzed.
\<close>

theorem implicit_excludes_never_returned:
  "getImplicitExcludes E excl = Inl ReferenceError
   \<and> getImplicitExcludes exampleEnv [''lib/threejs''] = Inl ReferenceError
   \<and> \<not> endsWith ''.js'' ''lib/threejs'' \<and> \<not> endsWith ''.css'' ''lib/threejs''
   \<and> \<not> endsWith ''/'' ''lib/threejs''
   \<and> analyzedExcludes E [''lib/threejs''] = []
   \<and> analyzedExcludes exampleEnv [''vendor/lib.html''] = [Inr [''vendor/dep.html'']]"
  by (simp add: endsWith_def getImplicitExcludes_def newAnalyzer_def matchAnyThen_def
      isLineTerminator_def Let_def exampleEnv_def)

end
